theory Spec2Isabelle
  imports Complex_Main "HOL-Library.Log_Nat"
begin

section \<open>Strings as the report generator uses them\<close>

text \<open>
  The service of \<^verbatim>\<open>app.py\<close> works on Python \<^verbatim>\<open>str\<close> values. A string is modelled as a
  \<^typ>\<open>string\<close>, one \<^typ>\<open>char\<close> per code point, so the model covers the code points
  below 256. \<^verbatim>\<open>str.strip()\<close> without an argument removes the characters for which
  \<^verbatim>\<open>str.isspace\<close> holds; below 256 these are the code points 9 to 13, 28 to 32, 133
  and 160.
\<close>

definition isspace :: "char \<Rightarrow> bool" where
  "isspace c = (c \<in> set [CHR 0x09, CHR 0x0A, CHR 0x0B, CHR 0x0C, CHR 0x0D,
                          CHR 0x1C, CHR 0x1D, CHR 0x1E, CHR 0x1F, CHR 0x20,
                          CHR 0x85, CHR 0xA0])"

definition lstrip :: "string \<Rightarrow> string" where
  "lstrip s = dropWhile isspace s"

definition rstrip :: "string \<Rightarrow> string" where
  "rstrip s = rev (dropWhile isspace (rev s))"

definition strip :: "string \<Rightarrow> string" where
  "strip s = lstrip (rstrip s)"

text \<open>
  \<^verbatim>\<open>s.split(sep)\<close> for a one-character separator. A character that is not the
  separator goes in front of the first piece of what follows; the split is never the
  empty list, so the first branch of the case distinction is never taken.
\<close>

fun split_on :: "char \<Rightarrow> string \<Rightarrow> string list" where
  "split_on sep [] = [[]]"
| "split_on sep (c # cs) =
     (if c = sep then [] # split_on sep cs
      else (case split_on sep cs of [] \<Rightarrow> [[c]] | w # ws \<Rightarrow> (c # w) # ws))"

text \<open>\<^verbatim>\<open>sep.join(xs)\<close>.\<close>

fun join :: "string \<Rightarrow> string list \<Rightarrow> string" where
  "join sep [] = []"
| "join sep [x] = x"
| "join sep (x # y # ys) = x @ sep @ join sep (y # ys)"

definition nl :: char where
  "nl = CHR 0x0A"

definition bar :: char where
  "bar = CHR ''|''"

section \<open>Errors\<close>

text \<open>
  The exceptions that the modelled code can raise. \<^verbatim>\<open>ValueError\<close> carries its message;
  the two messages of \<^verbatim>\<open>parse_markdown_table\<close> are the table-parse failures which the
  specification calls \<^verbatim>\<open>MalformedTable\<close>. \<^verbatim>\<open>TypeError\<close> is what \<^verbatim>\<open>max\<close> raises on one
  integer argument, \<^verbatim>\<open>ZeroDivisionError\<close> belongs to the aspect ratio of
  \<^verbatim>\<open>get_image_height\<close>, and \<^verbatim>\<open>UnidentifiedImageError\<close> is what opening an empty image
  file raises.
\<close>

datatype error = ValueError string | TypeError | ZeroDivisionError | UnidentifiedImageError

fun MalformedTable :: "error \<Rightarrow> bool" where
  "MalformedTable (ValueError m) = True"
| "MalformedTable e = False"

section \<open>The table parser\<close>

text \<open>
  \<^verbatim>\<open>rows = [row.strip() for row in markdown.strip().split("\n") if row.strip()]\<close>
\<close>

definition table_rows :: "string \<Rightarrow> string list" where
  "table_rows markdown =
     map strip (filter (\<lambda>row. strip row \<noteq> []) (split_on nl (strip markdown)))"

text \<open>
  \<^verbatim>\<open>re.match(r"^-+$", cell)\<close>: without the multi-line flag \<^verbatim>\<open>$\<close> matches at the end of
  the string and also just before a line break that ends the string.
\<close>

definition re_match_dashes :: "string \<Rightarrow> bool" where
  "re_match_dashes cell =
     (let body = (if cell \<noteq> [] \<and> last cell = nl then butlast cell else cell)
      in body \<noteq> [] \<and> list_all (\<lambda>c. c = CHR ''-'') body)"

text \<open>
  \<^verbatim>\<open>max(a, *xs)\<close>: with no further argument the call is \<^verbatim>\<open>max(a)\<close> on an integer, which
  raises \<^verbatim>\<open>TypeError\<close>.
\<close>

definition max_star :: "nat \<Rightarrow> nat list \<Rightarrow> error + nat" where
  "max_star a xs = (if xs = [] then Inl TypeError else Inr (fold max xs a))"

definition pad_row :: "nat \<Rightarrow> string list \<Rightarrow> string list" where
  "pad_row max_cols row = map strip row @ replicate (max_cols - length row) []"

definition parse_markdown_table :: "string \<Rightarrow> error + string list list" where
  "parse_markdown_table markdown =
     (let rows = table_rows markdown in
      if length rows < 3 then
        Inl (ValueError (''Invalid table markdown: Insufficient rows. Markdown: '' @ markdown))
      else
        let header = split_on bar (rows ! 0);
            separator = map strip (split_on bar (rows ! 1))
        in
        if \<not> list_all (\<lambda>cell. cell = [] \<or> re_match_dashes cell) separator then
          Inl (ValueError
            (''Invalid table markdown: Separator row must contain only '' @ [CHR 0x27] @
             ''---'' @ [CHR 0x27] @ ''. Markdown: '' @ markdown))
        else
          let data = map (split_on bar) (drop 2 rows) in
          case max_star (length header) (map length data) of
            Inl e \<Rightarrow> Inl e
          | Inr max_cols \<Rightarrow> Inr (pad_row max_cols header # map (pad_row max_cols) data))"

section \<open>Column cleanup\<close>

text \<open>
  \<^verbatim>\<open>zip(*data)\<close> transposes a list of rows and stops at the shortest row; both tuples
  and lists are modelled as lists.
\<close>

definition zip_star :: "'a list list \<Rightarrow> 'a list list" where
  "zip_star rows =
     (if rows = [] then []
      else map (\<lambda>i. map (\<lambda>row. row ! i) rows) [0..<min_list (map length rows)])"

definition clean_table_data :: "string list list \<Rightarrow> string list list" where
  "clean_table_data data =
     (if data = [] then data
      else
        let transposed = zip_star data;
            cleaned = filter (\<lambda>col. list_ex (\<lambda>cell. strip cell \<noteq> []) col) transposed
        in if cleaned \<noteq> [] then zip_star cleaned else data)"

section \<open>Floating-point numbers\<close>

text \<open>
  The lengths on a page are Python floats, that is binary doubles. A finite double is a
  rational, and each arithmetic operation of Python returns the exact result rounded to
  the nearest double, a tie going to the even mantissa. \<^term>\<open>fl\<close> is this rounding: the
  result has 53 significant bits, or is a multiple of \<open>2\<^sup>-\<^sup>1\<^sup>0\<^sup>7\<^sup>4\<close> below the normal
  range. Results beyond the largest double are not modelled; the lengths of a page are far
  from there. \<^term>\<open>float_exponent x\<close> is the largest \<open>k\<close> with \<open>2\<^sup>k \<le> \<bar>x\<bar>\<close>.
\<close>

definition pow2 :: "int \<Rightarrow> rat" where
  "pow2 k = (if 0 \<le> k then 2 ^ nat k else 1 / 2 ^ nat (- k))"

definition float_exponent :: "rat \<Rightarrow> int" where
  "float_exponent x =
     (let (a, b) = quotient_of \<bar>x\<bar>;
          k = bitlen a - bitlen b
      in if pow2 k \<le> \<bar>x\<bar> then k else k - 1)"

definition round_half_even :: "rat \<Rightarrow> int" where
  "round_half_even x =
     (let f = \<lfloor>x\<rfloor>; d = x - of_int f
      in if d < 1 / 2 then f
         else if 1 / 2 < d then f + 1
         else if even f then f else f + 1)"

definition fl :: "rat \<Rightarrow> rat" where
  "fl x =
     (if x = 0 then 0
      else
        let ulp = pow2 (max (float_exponent x) (- 1022) - 52)
        in of_int (round_half_even (x / ulp)) * ulp)"

text \<open>Python's \<^verbatim>\<open>+\<close>, \<^verbatim>\<open>-\<close>, \<^verbatim>\<open>*\<close> and \<^verbatim>\<open>/\<close> on floats.\<close>

definition fadd :: "rat \<Rightarrow> rat \<Rightarrow> rat" where
  "fadd x y = fl (x + y)"

definition fsub :: "rat \<Rightarrow> rat \<Rightarrow> rat" where
  "fsub x y = fl (x - y)"

definition fmul :: "rat \<Rightarrow> rat \<Rightarrow> rat" where
  "fmul x y = fl (x * y)"

definition fdiv :: "rat \<Rightarrow> rat \<Rightarrow> rat" where
  "fdiv x y = fl (x / y)"

section \<open>The table rasterizer\<close>

text \<open>
  \<^verbatim>\<open>create_dynamic_table_image\<close> hands a figure to the plotting library, which writes the
  image file. The model keeps what the function computes itself: the column widths, the
  figure size, the header labels, the body cells and the cells marked for wrapping. The
  result is \<^term>\<open>None\<close> when the function returns early on an empty grid and writes
  nothing. The columns of \<^verbatim>\<open>zip(*data)\<close> for a non-empty grid have one cell per row, so
  the inner \<^verbatim>\<open>max\<close> is never taken over an empty column.
\<close>

record figure =
  col_widths :: "nat list"
  total_width :: nat
  fig_width :: rat
  fig_height :: rat
  col_labels :: "string list"
  cell_text :: "string list list"
  wrap :: "bool list list"

definition create_dynamic_table_image :: "string list list \<Rightarrow> figure option" where
  "create_dynamic_table_image data =
     (if data = [] then None
      else
        let widths = map (\<lambda>col. fold max (map length col) 0) (zip_star data);
            total = sum_list widths
        in Some \<lparr>col_widths = widths,
                 total_width = total,
                 fig_width = min 15 (fmul (fl (of_nat total)) (1 / 2)),
                 fig_height = fmul (fl (of_nat (length data))) (1 / 2),
                 col_labels = hd data,
                 cell_text = tl data,
                 wrap = map (map (\<lambda>cell. 30 < length cell)) data\<rparr>)"

section \<open>The document and the drawing library\<close>

text \<open>
  \<^verbatim>\<open>StyledPDF\<close> extends the drawing library's document class. The document is modelled
  by its vertical cursor, its page count and the list of drawing calls that the code of
  the application has made on it, in order. This includes the calls of
  \<^verbatim>\<open>StyledPDF.header\<close>, which the library runs on every page that it starts:
  \<^term>\<open>AddPage\<close> stands for a call of \<^verbatim>\<open>add_page\<close> by the application,
  \<^term>\<open>AutoPageBreak\<close> for a page that the library starts by itself while it lays out a
  text cell.
\<close>

datatype call =
    AddPage
  | AutoPageBreak
  | SetY rat
  | SetFont string string nat
  | SetTextColor nat nat nat
  | Cell rat rat string
  | MultiCell rat rat string
  | Ln rat
  | Logo rat rat rat
  | Image figure rat rat rat

record pdf =
  cur_y :: rat
  page :: nat
  calls :: "call list"

text \<open>
  What the surroundings decide is a parameter: the page size and top margin, where the
  cursor stands after the library has laid out a text cell and how many pages it has
  started on the way (\<^term>\<open>flow\<close>, from the call, the cursor and the page: the library
  wraps text and breaks pages by itself there), the pixel size of a
  rasterized table, whether the logo and the temporary image file exist, the bytes of a
  finished document, the random object name, and the answers of the object store.
  Failures inside the libraries (a missing font, the plotting itself) are outside the
  model.
\<close>

record env =
  page_w :: rat
  page_h :: rat
  t_margin :: rat
  flow :: "call \<Rightarrow> rat \<times> nat \<Rightarrow> rat \<times> nat"
  image_dimensions :: "figure \<Rightarrow> nat \<times> nat"
  logo_exists :: bool
  tmp_exists :: bool
  output_bytes :: "pdf \<Rightarrow> string"
  uuid4 :: string
  put_object_ok :: "string \<Rightarrow> string \<Rightarrow> bool"
  presigned_url :: "string \<Rightarrow> string option"

text \<open>
  The calls that \<^verbatim>\<open>StyledPDF.header\<close> makes, in order: the logo if its file exists, the
  cursor, the font, the colour, the title cell and the line break.
\<close>

definition report_title :: string where
  "report_title = ''Harvest & Invest: Portfolio Optimization Report''"

definition header_calls :: "env \<Rightarrow> call list" where
  "header_calls e =
     (if logo_exists e then [Logo 10 8 30] else []) @
     [SetY 25, SetFont ''DejaVu'' ''B'' 16, SetTextColor 102 0 204,
      Cell 0 10 report_title, Ln 10]"

definition emit :: "call \<Rightarrow> pdf \<Rightarrow> pdf" where
  "emit c p = p\<lparr>calls := calls p @ [c]\<rparr>"

definition fpdf_set_y :: "rat \<Rightarrow> pdf \<Rightarrow> pdf" where
  "fpdf_set_y v p = emit (SetY v) (p\<lparr>cur_y := v\<rparr>)"

definition fpdf_ln :: "rat \<Rightarrow> pdf \<Rightarrow> pdf" where
  "fpdf_ln h p = emit (Ln h) (p\<lparr>cur_y := fadd (cur_y p) h\<rparr>)"

text \<open>
  A text cell (\<^verbatim>\<open>cell\<close> or \<^verbatim>\<open>multi_cell\<close>). The library decides where the cursor stands
  afterwards and how many pages it starts on the way; on each of them it runs the
  header, whose calls follow the cell in the log.
\<close>

definition auto_breaks :: "env \<Rightarrow> nat \<Rightarrow> call list" where
  "auto_breaks e started = concat (replicate started (AutoPageBreak # header_calls e))"

definition fpdf_text :: "env \<Rightarrow> call \<Rightarrow> pdf \<Rightarrow> pdf" where
  "fpdf_text e c p =
     (let (y', started) = flow e c (cur_y p, page p)
      in p\<lparr>cur_y := y', page := page p + started,
           calls := calls p @ c # auto_breaks e started\<rparr>)"

definition fpdf_cell :: "env \<Rightarrow> rat \<Rightarrow> rat \<Rightarrow> string \<Rightarrow> pdf \<Rightarrow> pdf" where
  "fpdf_cell e w h txt p = fpdf_text e (Cell w h txt) p"

definition fpdf_multi_cell :: "env \<Rightarrow> rat \<Rightarrow> rat \<Rightarrow> string \<Rightarrow> pdf \<Rightarrow> pdf" where
  "fpdf_multi_cell e w h txt p = fpdf_text e (MultiCell w h txt) p"

text \<open>An image placed at an explicit \<^verbatim>\<open>y\<close> leaves the cursor where it is.\<close>

definition fpdf_image :: "figure \<Rightarrow> rat \<Rightarrow> rat \<Rightarrow> rat \<Rightarrow> pdf \<Rightarrow> pdf" where
  "fpdf_image fig x y w p = emit (Image fig x y w) p"

text \<open>\<^verbatim>\<open>StyledPDF.header\<close>, which the library runs on every new page.\<close>

definition header :: "env \<Rightarrow> pdf \<Rightarrow> pdf" where
  "header e p =
     (let p1 = (if logo_exists e then emit (Logo 10 8 30) p else p);
          p2 = fpdf_set_y 25 p1;
          p3 = emit (SetFont ''DejaVu'' ''B'' 16) p2;
          p4 = emit (SetTextColor 102 0 204) p3;
          p5 = fpdf_cell e 0 10 report_title p4
      in fpdf_ln 10 p5)"

definition fpdf_add_page :: "env \<Rightarrow> pdf \<Rightarrow> pdf" where
  "fpdf_add_page e p =
     header e (emit AddPage (p\<lparr>page := page p + 1, cur_y := t_margin e\<rparr>))"

definition StyledPDF :: "env \<Rightarrow> pdf" where
  "StyledPDF e = \<lparr>cur_y = 0, page = 0, calls = []\<rparr>"

section \<open>Rendering a table\<close>

text \<open>
  \<^verbatim>\<open>get_image_height\<close>: the width times the aspect ratio of the image file.
\<close>

definition get_image_height :: "env \<Rightarrow> figure \<Rightarrow> rat \<Rightarrow> error + rat" where
  "get_image_height e fig width =
     (let (img_width, img_height) = image_dimensions e fig in
      if img_width = 0 then Inl ZeroDivisionError
      else Inr (fmul width (fdiv (of_nat img_height) (of_nat img_width))))"

text \<open>
  \<^verbatim>\<open>render_table\<close>. The temporary file is created empty by \<^verbatim>\<open>NamedTemporaryFile\<close> and
  then written by the rasterizer; whether it is still there when the code looks for it
  is the parameter \<^term>\<open>tmp_exists\<close>. When the rasterizer has returned early, the file is
  still empty, and reading its dimensions raises.
\<close>

definition render_table :: "env \<Rightarrow> string \<Rightarrow> pdf \<Rightarrow> error + pdf" where
  "render_table e markdown_table p =
     (case parse_markdown_table markdown_table of
        Inl err \<Rightarrow> Inl err
      | Inr parsed \<Rightarrow>
          let data = clean_table_data parsed;
              image_file = create_dynamic_table_image data
          in
          if tmp_exists e then
            let img_width = fsub (page_w e) 20 in
            case image_file of
              None \<Rightarrow> Inl UnidentifiedImageError
            | Some fig \<Rightarrow>
                (case get_image_height e fig img_width of
                   Inl err \<Rightarrow> Inl err
                 | Inr img_height \<Rightarrow>
                     let p1 = (if fadd (cur_y p) img_height > fsub (page_h e) 20
                               then fpdf_add_page e p else p);
                         p2 = fpdf_image fig 10 (cur_y p1) img_width p1
                     in Inr (fpdf_ln (fadd img_height 5) p2))
          else Inr p)"

section \<open>Rendering a section body\<close>

definition is_table_line :: "string \<Rightarrow> bool" where
  "is_table_line line = (bar \<in> set line)"

text \<open>The two ways in which \<^verbatim>\<open>render_content\<close> empties its buffer.\<close>

definition flush_prose :: "env \<Rightarrow> string list \<Rightarrow> pdf \<Rightarrow> pdf" where
  "flush_prose e buffer p = fpdf_ln 5 (fpdf_multi_cell e 0 8 (strip (join [nl] buffer)) p)"

definition flush_table :: "env \<Rightarrow> string list \<Rightarrow> pdf \<Rightarrow> error + pdf" where
  "flush_table e buffer p =
     (case render_table e (join [nl] buffer) p of
        Inl err \<Rightarrow> Inl err
      | Inr p' \<Rightarrow> Inr (fpdf_ln 10 p'))"

text \<open>
  The loop of \<^verbatim>\<open>render_content\<close> over the lines, with the loop variables \<^verbatim>\<open>buffer\<close> and
  \<^verbatim>\<open>in_table\<close> and the document as state.
\<close>

fun render_lines ::
  "env \<Rightarrow> string list \<Rightarrow> string list \<Rightarrow> bool \<Rightarrow> pdf \<Rightarrow> error + (string list \<times> bool \<times> pdf)"
where
  "render_lines e [] buffer in_table p = Inr (buffer, in_table, p)"
| "render_lines e (line # lines) buffer in_table p =
     (if is_table_line line then
        (if \<not> in_table then
           (if buffer \<noteq> [] then
              render_lines e lines ([] @ [strip line]) True (flush_prose e buffer p)
            else render_lines e lines (buffer @ [strip line]) True p)
         else render_lines e lines (buffer @ [strip line]) in_table p)
      else
        (if in_table then
           (case flush_table e buffer p of
              Inl err \<Rightarrow> Inl err
            | Inr p' \<Rightarrow> render_lines e lines ([] @ [line]) False p')
         else render_lines e lines (buffer @ [line]) in_table p))"

definition render_content :: "env \<Rightarrow> string \<Rightarrow> pdf \<Rightarrow> error + pdf" where
  "render_content e content p =
     (case render_lines e (split_on nl (strip content)) [] False p of
        Inl err \<Rightarrow> Inl err
      | Inr (buffer, in_table, p') \<Rightarrow>
          if in_table then flush_table e buffer p'
          else if buffer \<noteq> [] then Inr (flush_prose e buffer p')
          else Inr p')"

section \<open>Sections and the request handler\<close>

text \<open>
  \<^verbatim>\<open>StyledPDF.add_section\<close>: the style of the title, the title cell, the style of the
  body, the body, and the space after it. Every \<^verbatim>\<open>except\<close> clause of the rendering code
  (in the parser, \<^verbatim>\<open>render_table\<close>, \<^verbatim>\<open>render_content\<close> and here) logs the exception and
  raises it again, so the model passes an error on unchanged.
\<close>

definition add_section :: "env \<Rightarrow> string \<Rightarrow> string \<Rightarrow> bool \<Rightarrow> pdf \<Rightarrow> error + pdf" where
  "add_section e title content is_disclaimer p =
     (let p1 = (if is_disclaimer
                then emit (SetFont ''DejaVu'' ''I'' 8) (emit (SetTextColor 0 0 0) p)
                else emit (SetFont ''DejaVu'' ''B'' 12) (emit (SetTextColor 153 102 255) p));
          p2 = fpdf_ln 3 (fpdf_cell e 0 10 title p1);
          p3 = (if \<not> is_disclaimer
                then emit (SetTextColor 0 0 0) (emit (SetFont ''DejaVu'' [] 10) p2)
                else p2)
      in case render_content e content p3 of
           Inl err \<Rightarrow> Inl err
         | Inr p4 \<Rightarrow> Inr (fpdf_ln 5 p4))"

text \<open>A loop of the handler that adds sections which are not the disclaimer.\<close>

fun add_sections :: "env \<Rightarrow> (string \<times> string) list \<Rightarrow> pdf \<Rightarrow> error + pdf" where
  "add_sections e [] p = Inr p"
| "add_sections e ((title, content) # rest) p =
     (case add_section e title content False p of
        Inl err \<Rightarrow> Inl err
      | Inr p' \<Rightarrow> add_sections e rest p')"

record GeneratePDFRequest =
  executive_summary :: string
  portfolio_summary :: string
  tax_loss_harvesting_analysis :: string
  reinvestment_strategy :: string
  portfolio_outlook :: string
  actionable_next_steps :: string
  irs_compliance_warning :: string

text \<open>\<^verbatim>\<open>body.dict().items()\<close>: the fields in the order of their declaration.\<close>

definition dict_items :: "GeneratePDFRequest \<Rightarrow> (string \<times> string) list" where
  "dict_items body =
     [(''executive_summary'', executive_summary body),
      (''portfolio_summary'', portfolio_summary body),
      (''tax_loss_harvesting_analysis'', tax_loss_harvesting_analysis body),
      (''reinvestment_strategy'', reinvestment_strategy body),
      (''portfolio_outlook'', portfolio_outlook body),
      (''actionable_next_steps'', actionable_next_steps body),
      (''irs_compliance_warning'', irs_compliance_warning body)]"

text \<open>
  \<^verbatim>\<open>title.replace("_", " ").title()\<close>, on the letters of the ASCII alphabet, which is all
  that the field names contain.
\<close>

definition ascii_lowercase :: string where
  "ascii_lowercase = ''abcdefghijklmnopqrstuvwxyz''"

definition ascii_uppercase :: string where
  "ascii_uppercase = ''ABCDEFGHIJKLMNOPQRSTUVWXYZ''"

definition upper :: "char \<Rightarrow> char" where
  "upper c = (case map_of (zip ascii_lowercase ascii_uppercase) c of Some u \<Rightarrow> u | None \<Rightarrow> c)"

definition lower :: "char \<Rightarrow> char" where
  "lower c = (case map_of (zip ascii_uppercase ascii_lowercase) c of Some l \<Rightarrow> l | None \<Rightarrow> c)"

fun title_from :: "bool \<Rightarrow> string \<Rightarrow> string" where
  "title_from prev_cased [] = []"
| "title_from prev_cased (c # cs) =
     (if c \<in> set ascii_lowercase \<or> c \<in> set ascii_uppercase
      then (if prev_cased then lower c else upper c) # title_from True cs
      else c # title_from False cs)"

definition formatted_title :: "string \<Rightarrow> string" where
  "formatted_title title =
     title_from False (map (\<lambda>c. if c = CHR ''_'' then CHR '' '' else c) title)"

definition fixed_content :: "(string \<times> string) list" where
  "fixed_content =
     [(''About This Report'',
       ''This report outlines a strategy for optimizing your portfolio through tax-loss harvesting (TLH) '' @
       ''and reinvestment. It is designed to align with your aggressive risk tolerance, sector preferences, '' @
       ''and growth-oriented investment goals.'')]"

definition disclaimer_text :: string where
  "disclaimer_text =
     ''This report is provided for informational purposes only and is based on the data and preferences you have shared. '' @
     ''The recommendations contained herein are intended to assist in optimizing your portfolio in alignment with your '' @
     ''stated investment goals, risk tolerance, and financial objectives.'' @ [nl, nl] @
     ''Market Risks: All investments involve risk, including the potential loss of principal. Past performance is not indicative '' @
     ''of future results.'' @ [nl] @
     ''Tax Considerations: Tax-loss harvesting recommendations are based on current IRS guidelines, which are subject to change. '' @
     ''Consult a qualified tax advisor.'' @ [nl] @
     ''No Guarantees: There is no guarantee that recommendations will achieve the desired outcomes.'' @ [nl] @
     ''Dynamic Market Conditions: This report does not account for unforeseen market fluctuations or macroeconomic factors.'' @ [nl, nl] @
     ''Consult with legal, tax, and financial advisors before acting on any recommendations provided in this report.''"

text \<open>
  What a request raises: an error of the rendering code, or the framework's
  \<^verbatim>\<open>HTTPException\<close> with a status and a detail. \<^term>\<open>ErrorGeneratingPDF x\<close> stands for the
  detail \<^verbatim>\<open>f"Error generating PDF: {str(e)}"\<close> of the handler's outermost \<^verbatim>\<open>except\<close>,
  which also catches the \<^verbatim>\<open>HTTPException\<close>s that the handler raises itself.
\<close>

datatype exn = Raised error | HTTPException nat detail
  and detail = Detail string | ErrorGeneratingPDF exn

record response =
  message :: string
  file_url :: string

text \<open>
  What a request does outside the document: it constructs the document, serialises
  it, and calls the object store.
\<close>

datatype event =
    NewDocument
  | Output
  | PutObject string string
  | GeneratePresignedUrl string

record outcome =
  result :: "exn + response"
  events :: "event list"

text \<open>\<^verbatim>\<open>API_KEY = os.getenv("API_KEY", "default_key")\<close>\<close>

definition API_KEY :: "(string \<rightharpoonup> string) \<Rightarrow> string" where
  "API_KEY environ = (case environ ''API_KEY'' of None \<Rightarrow> ''default_key'' | Some v \<Rightarrow> v)"

text \<open>
  \<^verbatim>\<open>get_api_key\<close>. The header scheme is declared with \<^verbatim>\<open>auto_error=False\<close>, so a request
  without the header arrives here with \<^verbatim>\<open>None\<close>.
\<close>

definition get_api_key :: "string \<Rightarrow> string option \<Rightarrow> exn + string option" where
  "get_api_key configured api_key =
     (if api_key \<noteq> Some configured
      then Inl (HTTPException 401 (Detail ''Invalid or missing API Key''))
      else Inr api_key)"

text \<open>
  The handler \<^verbatim>\<open>generate_pdf\<close> up to the serialisation: a new document with its first
  page, the fixed sections, the sections of the request, the disclaimer.
\<close>

definition render_document :: "env \<Rightarrow> GeneratePDFRequest \<Rightarrow> error + pdf" where
  "render_document e body =
     (let p = fpdf_add_page e (StyledPDF e) in
      case add_sections e fixed_content p of
        Inl err \<Rightarrow> Inl err
      | Inr p1 \<Rightarrow>
          (case add_sections e (map (\<lambda>(title, content). (formatted_title title, content))
                                  (dict_items body)) p1 of
             Inl err \<Rightarrow> Inl err
           | Inr p2 \<Rightarrow> add_section e ''Disclaimer'' disclaimer_text True p2))"

text \<open>
  The handler \<^verbatim>\<open>generate_pdf\<close>. Its outermost \<^verbatim>\<open>except\<close> clause turns every exception into
  status 500; serialising, storing and signing happen only after all sections have been
  added.
\<close>

definition generate_pdf :: "env \<Rightarrow> GeneratePDFRequest \<Rightarrow> outcome" where
  "generate_pdf e body =
     (case render_document e body of
        Inl err \<Rightarrow>
          \<lparr>result = Inl (HTTPException 500 (ErrorGeneratingPDF (Raised err))),
           events = [NewDocument]\<rparr>
      | Inr p \<Rightarrow>
          let pdf_output = output_bytes e p;
              object_name = ''Portfolio_Optimization_Report_'' @ uuid4 e @ ''.pdf''
          in
          if \<not> put_object_ok e object_name pdf_output then
            \<lparr>result = Inl (HTTPException 500 (ErrorGeneratingPDF
                 (HTTPException 500 (Detail ''Error uploading PDF to COS.'')))),
             events = [NewDocument, Output, PutObject object_name pdf_output]\<rparr>
          else
            (case presigned_url e object_name of
               None \<Rightarrow>
                 \<lparr>result = Inl (HTTPException 500 (ErrorGeneratingPDF
                      (HTTPException 500 (Detail ''Error generating pre-signed URL.'')))),
                  events = [NewDocument, Output, PutObject object_name pdf_output,
                            GeneratePresignedUrl object_name]\<rparr>
             | Some url \<Rightarrow>
                 \<lparr>result = Inr \<lparr>message = ''PDF generated successfully'', file_url = url\<rparr>,
                  events = [NewDocument, Output, PutObject object_name pdf_output,
                            GeneratePresignedUrl object_name]\<rparr>))"

text \<open>
  The route \<^verbatim>\<open>POST /generate-pdf\<close>: the framework resolves the dependency
  \<^verbatim>\<open>get_api_key\<close> first and calls the handler only when it has returned.
\<close>

definition post_generate_pdf ::
  "env \<Rightarrow> (string \<rightharpoonup> string) \<Rightarrow> string option \<Rightarrow> GeneratePDFRequest \<Rightarrow> outcome" where
  "post_generate_pdf e environ api_key body =
     (case get_api_key (API_KEY environ) api_key of
        Inl err \<Rightarrow> \<lparr>result = Inl err, events = []\<rparr>
      | Inr key \<Rightarrow> generate_pdf e body)"

section \<open>The specification's notions\<close>

subsection \<open>Table markup\<close>

text \<open>
  The specification describes the parser on the non-blank lines of the markup: split on
  line breaks, trim each line, discard the blank ones. Line 0 is the header, line 1 the
  separator, the lines from 2 on are the data rows. A separator cell is good when it is
  empty or consists of one or more dashes, and markup is valid when it has at least
  three non-blank lines and only good separator cells. A row is padded by trimming its
  cells and appending empty strings up to a width.
\<close>

definition nonblank_lines :: "string \<Rightarrow> string list" where
  "nonblank_lines s = filter (\<lambda>r. r \<noteq> []) (map strip (split_on nl s))"

definition dash_cell :: "string \<Rightarrow> bool" where
  "dash_cell cell = (cell \<noteq> [] \<and> list_all (\<lambda>c. c = CHR ''-'') cell)"

definition header_cells :: "string \<Rightarrow> string list" where
  "header_cells markdown = split_on bar (nonblank_lines markdown ! 0)"

definition separator_cells :: "string \<Rightarrow> string list" where
  "separator_cells markdown = map strip (split_on bar (nonblank_lines markdown ! 1))"

definition data_rows :: "string \<Rightarrow> string list list" where
  "data_rows markdown = map (split_on bar) (drop 2 (nonblank_lines markdown))"

definition valid_table :: "string \<Rightarrow> bool" where
  "valid_table markdown =
     (3 \<le> length (nonblank_lines markdown) \<and>
      list_all (\<lambda>cell. cell = [] \<or> dash_cell cell) (separator_cells markdown))"

definition max_cols :: "string \<Rightarrow> nat" where
  "max_cols markdown = Max (set (map length (header_cells markdown # data_rows markdown)))"

definition padded :: "nat \<Rightarrow> string list \<Rightarrow> string list" where
  "padded n row = map strip row @ replicate (n - length row) []"

subsection \<open>Blank columns\<close>

text \<open>
  Column \<open>j\<close> of a grid is blank when its cell is empty after trimming in every row, the
  header included; the kept columns of a grid of width \<open>m\<close> are the others, in order.
\<close>

definition blank_col :: "string list list \<Rightarrow> nat \<Rightarrow> bool" where
  "blank_col grid j = list_all (\<lambda>row. strip (row ! j) = []) grid"

definition kept_cols :: "string list list \<Rightarrow> nat \<Rightarrow> nat list" where
  "kept_cols grid m = filter (\<lambda>j. \<not> blank_col grid j) [0..<m]"

definition nonblank_col :: "string list \<Rightarrow> bool" where
  "nonblank_col col = list_ex (\<lambda>cell. strip cell \<noteq> []) col"

subsection \<open>Runs of lines and what is drawn for them\<close>

text \<open>
  The lines of a body are those of the trimmed body. A run is a maximal sequence of
  consecutive lines with the same classification; \<^term>\<open>runs\<close> pairs each run with its
  classification (\<^term>\<open>True\<close> for table lines). A classification change is a pair of
  neighbouring lines that are classified differently.
\<close>

definition body_lines :: "string \<Rightarrow> string list" where
  "body_lines content = split_on nl (strip content)"

fun runs :: "string list \<Rightarrow> (bool \<times> string list) list" where
  "runs [] = []"
| "runs (l # ls) =
     (case runs ls of
        [] \<Rightarrow> [(is_table_line l, [l])]
      | (t, r) # rs \<Rightarrow>
          if t = is_table_line l then (t, l # r) # rs
          else (is_table_line l, [l]) # (t, r) # rs)"

definition classification_changes :: "string list \<Rightarrow> nat" where
  "classification_changes ls =
     length (filter (\<lambda>(a, b). is_table_line a \<noteq> is_table_line b) (zip ls (tl ls)))"

text \<open>
  Rendering run by run: a prose run is drawn as one text block, a table run is trimmed
  line by line and handed to \<^term>\<open>render_table\<close>; the first failure ends the
  rendering. \<^term>\<open>finish\<close> is the code of \<^term>\<open>render_content\<close> after its loop.
\<close>

definition render_run :: "env \<Rightarrow> bool \<Rightarrow> string list \<Rightarrow> pdf \<Rightarrow> error + pdf" where
  "render_run e t ls p =
     (if t then flush_table e (map strip ls) p else Inr (flush_prose e ls p))"

fun render_runs :: "env \<Rightarrow> (bool \<times> string list) list \<Rightarrow> pdf \<Rightarrow> error + pdf" where
  "render_runs e [] p = Inr p"
| "render_runs e ((t, ls) # rs) p =
     (case render_run e t ls p of
        Inl err \<Rightarrow> Inl err
      | Inr p' \<Rightarrow> render_runs e rs p')"

definition finish :: "env \<Rightarrow> error + (string list \<times> bool \<times> pdf) \<Rightarrow> error + pdf" where
  "finish e r =
     (case r of
        Inl err \<Rightarrow> Inl err
      | Inr (buffer, in_table, p') \<Rightarrow>
          if in_table then flush_table e buffer p'
          else if buffer \<noteq> [] then Inr (flush_prose e buffer p')
          else Inr p')"

text \<open>
  The content that a list of drawing calls puts on the pages: a prose block for each
  multi-line text cell and a table image, named by the grid that its figure shows, for
  each placed image. The new calls of a rendering step are those it has added to the
  document. The block of a run is the trimmed text of a prose run, and the image of the
  cleaned grid of a table run.
\<close>

datatype block = ProseBlock string | TableImage "string list list"

fun blocks :: "call list \<Rightarrow> block list" where
  "blocks [] = []"
| "blocks (MultiCell w h txt # cs) = ProseBlock txt # blocks cs"
| "blocks (Image fig x y w # cs) = TableImage (col_labels fig # cell_text fig) # blocks cs"
| "blocks (c # cs) = blocks cs"

definition new_calls :: "pdf \<Rightarrow> pdf \<Rightarrow> call list" where
  "new_calls p p' = drop (length (calls p)) (calls p')"

definition run_block :: "bool \<Rightarrow> string list \<Rightarrow> block" where
  "run_block t ls =
     (if t then
        TableImage (case parse_markdown_table (join [nl] (map strip ls)) of
                      Inl err \<Rightarrow> []
                    | Inr grid \<Rightarrow> clean_table_data grid)
      else ProseBlock (strip (join [nl] ls)))"

text \<open>
  The bottom margin that \<^term>\<open>render_table\<close> keeps free, in the unit of the page, and
  the example body of the specification.
\<close>

definition bottom_margin :: rat where
  "bottom_margin = 20"

definition example_body :: string where
  "example_body =
     ''Summary line.'' @ [nl, nl] @ ''| A | B |'' @ [nl] @ ''|---|---|'' @ [nl] @
     ''| 1 | 2 |'' @ [nl, nl] @ ''More text.''"

text \<open>
  A body is malformed when the markup of one of its table runs fails to parse. The user
  sections of a request are its fields under their formatted titles.
\<close>

definition malformed_body :: "string \<Rightarrow> bool" where
  "malformed_body content =
     list_ex (\<lambda>(c, ls). c \<and> isl (parse_markdown_table (join [nl] (map strip ls))))
       (runs (body_lines content))"

definition user_sections :: "GeneratePDFRequest \<Rightarrow> (string \<times> string) list" where
  "user_sections body =
     map (\<lambda>(title, content). (formatted_title title, content)) (dict_items body)"

subsection \<open>Concrete surroundings for the examples\<close>

text \<open>
  An A4 page in millimetres, a layout in which every text cell moves the cursor down by
  10, table images twice as wide as high, no logo, and an object store that accepts
  everything; a document on its first page with the cursor at a given height; the figure
  of the grid \<^verbatim>\<open>[["A","B"],["1","2"]]\<close>; a request and a small table; and the double
  next above 182, a cursor at which the rounding of the sum decides the page break.
\<close>

definition demo_env :: env where
  "demo_env =
     \<lparr>page_w = 210, page_h = 297, t_margin = 10,
      flow = (\<lambda>c (y, pg). (y + 10, 0)),
      image_dimensions = (\<lambda>fig. (200, 100)),
      logo_exists = False, tmp_exists = True,
      output_bytes = (\<lambda>p. ''%PDF''), uuid4 = ''0000'',
      put_object_ok = (\<lambda>k b. True),
      presigned_url = (\<lambda>k. Some (''https://cos.example/'' @ k))\<rparr>"

definition demo_pdf :: "rat \<Rightarrow> pdf" where
  "demo_pdf y = \<lparr>cur_y = y, page = 1, calls = []\<rparr>"

definition demo_figure :: figure where
  "demo_figure =
     \<lparr>col_widths = [1, 1], total_width = 2, fig_width = 1, fig_height = 1,
      col_labels = [''A'', ''B''], cell_text = [[''1'', ''2'']],
      wrap = [[False, False], [False, False]]\<rparr>"

definition demo_request :: "string \<Rightarrow> GeneratePDFRequest" where
  "demo_request summary =
     \<lparr>executive_summary = summary, portfolio_summary = ''Holdings.'',
      tax_loss_harvesting_analysis = ''Losses.'', reinvestment_strategy = ''Buy.'',
      portfolio_outlook = ''Good.'', actionable_next_steps = ''Act.'',
      irs_compliance_warning = ''Wash sales.''\<rparr>"

definition demo_table :: string where
  "demo_table = ''A|B'' @ [nl] @ ''--|--'' @ [nl] @ ''1|2''"

definition demo_edge :: rat where
  "demo_edge = 182 + 1 / 2 ^ 45"

section \<open>Facts about the model\<close>

subsection \<open>Splitting and trimming\<close>

text \<open>
  A split is never empty and commutes with reversal; trimming commutes with reversal
  too. Hence trimming the whole markup first, as the parser does, does not change its
  non-blank lines.
\<close>

lemma split_on_not_Nil: "split_on c s \<noteq> []"
  by (induction s) (auto split: list.splits)

lemma split_on_Cons:
  "split_on c (a # s) =
     (if a = c then [] # split_on c s
      else (a # hd (split_on c s)) # tl (split_on c s))"
  using split_on_not_Nil [of c s] by (cases "split_on c s") auto

lemma split_on_snoc:
  "split_on c (s @ [d]) =
     (if d = c then split_on c s @ [[]]
      else butlast (split_on c s) @ [last (split_on c s) @ [d]])"
proof (induction s)
  case Nil
  show ?case by simp
next
  case (Cons a s)
  have ne: "split_on c s \<noteq> []" by (rule split_on_not_Nil)
  show ?case
  proof (cases "split_on c s")
    case Nil
    with ne show ?thesis by simp
  next
    case (Cons w ws)
    with Cons.IH show ?thesis by (cases ws) (auto simp del: split_on.simps simp: split_on_Cons)
  qed
qed

lemma split_on_rev: "split_on c (rev s) = rev (map rev (split_on c s))"
proof (induction s)
  case Nil
  show ?case by simp
next
  case (Cons a s)
  have ne: "split_on c s \<noteq> []" by (rule split_on_not_Nil)
  then obtain w ws where ws: "split_on c s = w # ws" by (cases "split_on c s") auto
  show ?case using Cons.IH ws
    by (auto simp: split_on_snoc butlast_append rev_map)
qed

lemma isspace_nl: "isspace nl"
  by (simp add: isspace_def nl_def)

lemma strip_Nil: "strip [] = []"
  by (simp add: strip_def lstrip_def rstrip_def)

lemma dropWhile_snoc:
  "dropWhile P (xs @ [a]) =
     (if \<forall>x\<in>set xs. P x then dropWhile P [a] else dropWhile P xs @ [a])"
  by (induction xs) auto

lemma lstrip_rstrip_commute: "lstrip (rstrip s) = rstrip (lstrip s)"
proof (induction s)
  case Nil
  show ?case by (simp add: lstrip_def rstrip_def)
next
  case (Cons a s)
  show ?case
  proof (cases "isspace a")
    case True
    with Cons.IH show ?thesis
      by (simp add: lstrip_def rstrip_def dropWhile_snoc dropWhile_eq_Nil_conv [THEN iffD2])
  next
    case False
    then show ?thesis
      by (simp add: lstrip_def rstrip_def dropWhile_snoc)
  qed
qed

lemma strip_rev: "strip (rev s) = rev (strip s)"
proof -
  have "strip (rev s) = lstrip (rstrip (rev s))" by (simp add: strip_def)
  also have "\<dots> = rev (rstrip (lstrip s))" by (simp add: lstrip_def rstrip_def)
  also have "\<dots> = rev (strip s)" by (simp add: strip_def lstrip_rstrip_commute)
  finally show ?thesis .
qed

lemma strip_space_Cons: "isspace c \<Longrightarrow> strip (c # s) = strip s"
  by (simp add: strip_def lstrip_rstrip_commute) (simp add: lstrip_def)

lemma nonblank_lines_space_Cons:
  assumes "isspace c"
  shows "nonblank_lines (c # s) = nonblank_lines s"
proof (cases "c = nl")
  case True
  then show ?thesis by (simp add: nonblank_lines_def strip_Nil)
next
  case False
  obtain w ws where ws: "split_on nl s = w # ws"
    using split_on_not_Nil [of nl s] by (cases "split_on nl s") auto
  with False assms show ?thesis
    by (simp add: nonblank_lines_def strip_space_Cons)
qed

lemma nonblank_lines_lstrip: "nonblank_lines (lstrip s) = nonblank_lines s"
  unfolding lstrip_def
  by (induction s) (simp_all add: nonblank_lines_space_Cons)

lemma nonblank_lines_rev: "nonblank_lines (rev s) = rev (map rev (nonblank_lines s))"
  by (simp add: nonblank_lines_def split_on_rev rev_map filter_map comp_def strip_rev rev_filter)

lemma nonblank_lines_rstrip: "nonblank_lines (rstrip s) = nonblank_lines s"
proof -
  have "nonblank_lines (rstrip s) = nonblank_lines (rev (lstrip (rev s)))"
    by (simp add: rstrip_def lstrip_def)
  also have "\<dots> = rev (map rev (nonblank_lines (lstrip (rev s))))"
    by (rule nonblank_lines_rev)
  also have "\<dots> = rev (map rev (nonblank_lines (rev s)))"
    by (simp add: nonblank_lines_lstrip)
  also have "\<dots> = nonblank_lines s"
    by (simp add: nonblank_lines_rev rev_map comp_def)
  finally show ?thesis .
qed

lemma table_rows_nonblank_lines: "table_rows markdown = nonblank_lines markdown"
proof -
  have "table_rows markdown = nonblank_lines (strip markdown)"
    by (simp add: table_rows_def nonblank_lines_def filter_map comp_def)
  then show ?thesis
    by (simp add: strip_def nonblank_lines_lstrip nonblank_lines_rstrip)
qed

subsection \<open>The checks of the parser\<close>

text \<open>
  A trimmed cell does not end in a line break, so the regular expression of the
  separator check accepts exactly the cells of one or more dashes. The parser has three
  outcomes: too few rows, a bad separator, or the padded grid.
\<close>

lemma strip_last_not_space: "strip s \<noteq> [] \<Longrightarrow> \<not> isspace (last (strip s))"
proof -
  assume ne: "strip s \<noteq> []"
  have eq: "strip s = rev (dropWhile isspace (rev (lstrip s)))"
    unfolding strip_def lstrip_rstrip_commute by (simp add: rstrip_def)
  with ne have d: "dropWhile isspace (rev (lstrip s)) \<noteq> []" by simp
  then have "\<not> isspace (hd (dropWhile isspace (rev (lstrip s))))"
    by (rule hd_dropWhile)
  with d show ?thesis by (simp add: eq last_rev)
qed

lemma re_match_dashes_strip: "re_match_dashes (strip x) = dash_cell (strip x)"
proof (cases "strip x = []")
  case True
  then show ?thesis by (simp add: re_match_dashes_def dash_cell_def)
next
  case False
  then have "last (strip x) \<noteq> nl"
    using strip_last_not_space [of x] isspace_nl by auto
  then show ?thesis by (simp add: re_match_dashes_def dash_cell_def Let_def)
qed

lemma separator_check:
  "list_all (\<lambda>cell. cell = [] \<or> re_match_dashes cell) (map strip cells) =
   list_all (\<lambda>cell. cell = [] \<or> dash_cell cell) (map strip cells)"
  by (induction cells) (simp_all add: re_match_dashes_strip)

lemma max_star_Max: "xs \<noteq> [] \<Longrightarrow> max_star a xs = Inr (Max (set (a # xs)))"
  by (simp only: max_star_def Max.set_eq_fold if_False)

lemma parse_insufficient:
  "length (nonblank_lines markdown) < 3 \<Longrightarrow>
   parse_markdown_table markdown =
     Inl (ValueError (''Invalid table markdown: Insufficient rows. Markdown: '' @ markdown))"
  by (simp add: parse_markdown_table_def table_rows_nonblank_lines)

lemma parse_bad_separator:
  "3 \<le> length (nonblank_lines markdown) \<Longrightarrow>
   \<not> list_all (\<lambda>cell. cell = [] \<or> dash_cell cell) (separator_cells markdown) \<Longrightarrow>
   parse_markdown_table markdown =
     Inl (ValueError
       (''Invalid table markdown: Separator row must contain only '' @ [CHR 0x27] @
        ''---'' @ [CHR 0x27] @ ''. Markdown: '' @ markdown))"
  by (simp add: parse_markdown_table_def table_rows_nonblank_lines separator_cells_def
      separator_check Let_def)

lemma parse_valid:
  assumes "valid_table markdown"
  shows "parse_markdown_table markdown =
     Inr (map (padded (max_cols markdown)) (header_cells markdown # data_rows markdown))"
proof -
  from assms have len: "3 \<le> length (nonblank_lines markdown)"
    and sep: "list_all (\<lambda>cell. cell = [] \<or> dash_cell cell) (separator_cells markdown)"
    by (simp_all add: valid_table_def)
  from len have "drop 2 (nonblank_lines markdown) \<noteq> []" by simp
  then have data: "map length (data_rows markdown) \<noteq> []"
    by (simp add: data_rows_def)
  have m: "max_star (length (header_cells markdown)) (map length (data_rows markdown)) =
      Inr (max_cols markdown)"
    using max_star_Max [OF data] by (simp add: max_cols_def)
  have pad: "pad_row = padded"
    by (intro ext) (simp add: pad_row_def padded_def)
  show ?thesis
    using len sep m
    by (simp add: parse_markdown_table_def table_rows_nonblank_lines Let_def
        separator_check pad header_cells_def data_rows_def separator_cells_def)
qed

lemma parse_Inl_MalformedTable: "parse_markdown_table markdown = Inl e \<Longrightarrow> MalformedTable e"
proof (cases "length (nonblank_lines markdown) < 3")
  case True
  assume "parse_markdown_table markdown = Inl e"
  with parse_insufficient [OF True] show ?thesis by simp
next
  case False
  assume e: "parse_markdown_table markdown = Inl e"
  from False have len: "3 \<le> length (nonblank_lines markdown)" by simp
  show ?thesis
  proof (cases "list_all (\<lambda>cell. cell = [] \<or> dash_cell cell) (separator_cells markdown)")
    case True
    with len have "valid_table markdown" by (simp add: valid_table_def)
    from parse_valid [OF this] e show ?thesis by simp
  next
    case False
    from parse_bad_separator [OF len False] e show ?thesis by auto
  qed
qed

lemmas string_eval =
  nonblank_lines_def strip_def lstrip_def rstrip_def isspace_def nl_def bar_def
  header_cells_def separator_cells_def data_rows_def dash_cell_def

subsection \<open>Transposition and column cleanup\<close>

text \<open>
  On rows of equal length the transposition is the list of columns, and transposing
  columns of equal positive length twice gives them back.
\<close>

lemma min_list_map_length:
  "rows \<noteq> [] \<Longrightarrow> \<forall>row\<in>set rows. length row = m \<Longrightarrow> min_list (map length rows) = m"
proof (induction rows)
  case Nil
  then show ?case by simp
next
  case (Cons r rows)
  then show ?case by (cases rows) auto
qed

lemma zip_star_rect:
  assumes "rows \<noteq> []" and "\<forall>row\<in>set rows. length row = m"
  shows "zip_star rows = map (\<lambda>i. map (\<lambda>row. row ! i) rows) [0..<m]"
  using assms(1) min_list_map_length [OF assms] by (simp add: zip_star_def)

lemma zip_star_col_length: "col \<in> set (zip_star rows) \<Longrightarrow> length col = length rows"
  by (auto simp: zip_star_def split: if_splits)

lemma zip_star_zip_star:
  assumes ne: "cols \<noteq> []" and len: "\<forall>c\<in>set cols. length c = n" and n: "0 < n"
  shows "zip_star (zip_star cols) = cols"
proof -
  let ?R = "map (\<lambda>i. map (\<lambda>c. c ! i) cols) [0..<n]"
  have R: "zip_star cols = ?R" using ne len by (rule zip_star_rect)
  have Rne: "?R \<noteq> []" using n by simp
  have Rlen: "\<forall>row\<in>set ?R. length row = length cols" by simp
  have "zip_star ?R = map (\<lambda>j. map (\<lambda>row. row ! j) ?R) [0..<length cols]"
    using Rne Rlen by (rule zip_star_rect)
  also have "\<dots> = cols"
  proof (rule nth_equalityI)
    show "length (map (\<lambda>j. map (\<lambda>row. row ! j) ?R) [0..<length cols]) = length cols"
      by simp
  next
    fix j assume "j < length (map (\<lambda>j. map (\<lambda>row. row ! j) ?R) [0..<length cols])"
    then have j: "j < length cols" by simp
    then have lj: "length (cols ! j) = n" using len by simp
    have "map (\<lambda>row. row ! j) ?R = map (\<lambda>i. cols ! j ! i) [0..<n]"
      using j by (simp add: comp_def)
    also have "\<dots> = cols ! j"
      using lj map_nth [of "cols ! j"] by simp
    finally show "map (\<lambda>j. map (\<lambda>row. row ! j) ?R) [0..<length cols] ! j = cols ! j"
      using j by simp
  qed
  finally show ?thesis using R by simp
qed

lemma clean_table_data_unfold:
  "clean_table_data data =
     (if data = [] \<or> filter nonblank_col (zip_star data) = [] then data
      else zip_star (filter nonblank_col (zip_star data)))"
proof -
  have "nonblank_col = list_ex (\<lambda>cell. strip cell \<noteq> [])"
    by (intro ext) (simp add: nonblank_col_def)
  then show ?thesis by (simp add: clean_table_data_def Let_def)
qed

lemma clean_table_data_idem: "clean_table_data (clean_table_data data) = clean_table_data data"
proof (cases "data = [] \<or> filter nonblank_col (zip_star data) = []")
  case True
  then show ?thesis by (simp add: clean_table_data_unfold)
next
  case False
  let ?C = "filter nonblank_col (zip_star data)"
  from False have ne: "data \<noteq> []" and C: "?C \<noteq> []" by simp_all
  have len: "\<forall>c\<in>set ?C. length c = length data"
    by (auto dest: zip_star_col_length)
  have n: "0 < length data" using ne by simp
  have R: "clean_table_data data = zip_star ?C"
    using False by (simp add: clean_table_data_unfold)
  have round: "zip_star (zip_star ?C) = ?C"
    using C len n by (rule zip_star_zip_star)
  have Rne: "zip_star ?C \<noteq> []"
    using n by (simp add: zip_star_rect [OF C len])
  have keep: "filter nonblank_col ?C = ?C" by simp
  show ?thesis
    unfolding R
    by (subst clean_table_data_unfold) (simp only: round keep C Rne if_False simp_thms)
qed

lemma clean_table_data_no_empty_row:
  assumes "\<forall>row\<in>set data. row \<noteq> []"
  shows "\<forall>row\<in>set (clean_table_data data). row \<noteq> []"
proof (cases "data = [] \<or> filter nonblank_col (zip_star data) = []")
  case True
  with assms show ?thesis by (simp add: clean_table_data_unfold)
next
  case False
  let ?C = "filter nonblank_col (zip_star data)"
  from False have ne: "data \<noteq> []" and C: "?C \<noteq> []" by simp_all
  have len: "\<forall>c\<in>set ?C. length c = length data"
    by (auto dest: zip_star_col_length)
  have "clean_table_data data = zip_star ?C"
    using False by (simp add: clean_table_data_unfold)
  also have "\<dots> = map (\<lambda>i. map (\<lambda>c. c ! i) ?C) [0..<length data]"
    using C len by (rule zip_star_rect)
  finally show ?thesis using C by auto
qed

lemma clean_table_data_rect:
  assumes ne: "grid \<noteq> []" and rect: "\<forall>row\<in>set grid. length row = m"
  shows "clean_table_data grid =
     (if kept_cols grid m = [] then grid
      else map (\<lambda>row. map (\<lambda>j. row ! j) (kept_cols grid m)) grid)"
proof -
  let ?col = "\<lambda>j. map (\<lambda>row. row ! j) grid"
  have T: "zip_star grid = map ?col [0..<m]" using ne rect by (rule zip_star_rect)
  have P: "nonblank_col (?col j) = (\<not> blank_col grid j)" for j
    by (simp add: nonblank_col_def blank_col_def list_ex_iff list_all_iff)
  have C: "filter nonblank_col (zip_star grid) = map ?col (kept_cols grid m)"
    by (simp add: T filter_map comp_def P kept_cols_def)
  show ?thesis
  proof (cases "kept_cols grid m = []")
    case True
    then show ?thesis by (simp add: clean_table_data_unfold C)
  next
    case False
    have len: "\<forall>c\<in>set (map ?col (kept_cols grid m)). length c = length grid" by simp
    have Cne: "map ?col (kept_cols grid m) \<noteq> []" using False by simp
    have "zip_star (map ?col (kept_cols grid m)) =
        map (\<lambda>i. map (\<lambda>c. c ! i) (map ?col (kept_cols grid m))) [0..<length grid]"
      using Cne len by (rule zip_star_rect)
    also have "\<dots> = map (\<lambda>i. map (\<lambda>j. grid ! i ! j) (kept_cols grid m)) [0..<length grid]"
      by (simp add: comp_def)
    also have "\<dots> = map (\<lambda>row. map (\<lambda>j. row ! j) (kept_cols grid m)) grid"
      by (rule nth_equalityI) simp_all
    finally show ?thesis using False ne by (simp add: clean_table_data_unfold C)
  qed
qed

lemmas grid_eval = kept_cols_def blank_col_def strip_def lstrip_def rstrip_def isspace_def

subsection \<open>The shape of a parsed grid\<close>

lemma parse_Inr_valid: "parse_markdown_table markdown = Inr grid \<Longrightarrow> valid_table markdown"
proof (rule ccontr)
  assume p: "parse_markdown_table markdown = Inr grid" and n: "\<not> valid_table markdown"
  show False
  proof (cases "length (nonblank_lines markdown) < 3")
    case True
    from parse_insufficient [OF True] p show False by simp
  next
    case False
    then have len: "3 \<le> length (nonblank_lines markdown)" by simp
    with n have "\<not> list_all (\<lambda>cell. cell = [] \<or> dash_cell cell) (separator_cells markdown)"
      by (simp add: valid_table_def)
    from parse_bad_separator [OF len this] p show False by simp
  qed
qed

lemma max_cols_pos: "0 < max_cols markdown"
proof -
  have "length (header_cells markdown) \<le> max_cols markdown"
    unfolding max_cols_def by (auto intro!: Max_ge)
  moreover have "header_cells markdown \<noteq> []"
    by (simp add: header_cells_def split_on_not_Nil)
  ultimately show ?thesis by (cases "header_cells markdown") auto
qed

lemma padded_length: "length row \<le> n \<Longrightarrow> length (padded n row) = n"
  by (simp add: padded_def)

lemma parse_grid_shape:
  assumes "parse_markdown_table markdown = Inr grid"
  shows "2 \<le> length grid" and "\<forall>row\<in>set grid. length row = max_cols markdown"
proof -
  from assms have v: "valid_table markdown" by (rule parse_Inr_valid)
  from parse_valid [OF v] assms
  have g: "grid = map (padded (max_cols markdown)) (header_cells markdown # data_rows markdown)"
    by simp
  from v have "3 \<le> length (nonblank_lines markdown)" by (simp add: valid_table_def)
  then have "1 \<le> length (data_rows markdown)" by (simp add: data_rows_def)
  with g show "2 \<le> length grid" by simp
  have "\<forall>row\<in>set (header_cells markdown # data_rows markdown). length row \<le> max_cols markdown"
    unfolding max_cols_def by (auto intro!: Max_ge)
  with g show "\<forall>row\<in>set grid. length row = max_cols markdown"
    by (auto simp: padded_length)
qed

lemma clean_table_data_length:
  assumes "grid \<noteq> []" and "\<forall>row\<in>set grid. length row = m"
  shows "length (clean_table_data grid) = length grid"
  by (simp add: clean_table_data_rect [OF assms])

lemma get_image_height_error:
  "get_image_height e fig w = Inl err \<Longrightarrow> err = ZeroDivisionError"
  by (auto simp: get_image_height_def split: prod.splits if_splits)

lemma parsed_grid_nonempty:
  assumes "parse_markdown_table markdown = Inr grid"
  shows "2 \<le> length grid \<and> (\<forall>row\<in>set grid. 1 \<le> length row) \<and>
         2 \<le> length (clean_table_data grid) \<and>
         (\<forall>row\<in>set (clean_table_data grid). 1 \<le> length row) \<and>
         create_dynamic_table_image (clean_table_data grid) \<noteq> None \<and>
         (\<forall>e p. render_table e markdown p \<noteq> Inl UnidentifiedImageError)"
proof -
  note shape = parse_grid_shape [OF assms]
  from shape(1) have ne: "grid \<noteq> []" by auto
  have rows: "\<forall>row\<in>set grid. row \<noteq> []"
    using shape(2) max_cols_pos [of markdown] by auto
  have len: "length (clean_table_data grid) = length grid"
    using ne shape(2) by (rule clean_table_data_length)
  have crows: "\<forall>row\<in>set (clean_table_data grid). row \<noteq> []"
    using rows by (rule clean_table_data_no_empty_row)
  have cne: "clean_table_data grid \<noteq> []" using len ne by auto
  then have img: "create_dynamic_table_image (clean_table_data grid) \<noteq> None"
    by (simp add: create_dynamic_table_image_def Let_def)
  have "render_table e markdown p \<noteq> Inl UnidentifiedImageError" for e p
    using assms img
    by (auto simp: render_table_def Let_def split: option.splits sum.splits
        dest: get_image_height_error)
  with shape(1) rows len crows img show ?thesis
    by (auto simp: Suc_le_eq)
qed

subsection \<open>The loop over the lines and the runs\<close>

text \<open>
  The loop invariant: with a non-empty buffer holding the lines \<open>bs\<close> of the current
  run, the loop over the remaining lines followed by the final flush renders the runs of
  \<open>bs\<close> followed by the remaining lines.
\<close>

lemma render_content_finish:
  "render_content e content p =
     finish e (render_lines e (split_on nl (strip content)) [] False p)"
  by (simp add: render_content_def finish_def)

lemma runs_head:
  "\<exists>r rs. runs (l # ls) = (is_table_line l, l # r) # rs"
  by (cases "runs ls") (auto split: prod.splits)

lemma runs_uniform:
  "bs \<noteq> [] \<Longrightarrow> \<forall>l\<in>set bs. is_table_line l = t \<Longrightarrow> runs bs = [(t, bs)]"
proof (induction bs)
  case Nil
  then show ?case by simp
next
  case (Cons b bs)
  then show ?case by (cases bs) auto
qed

lemma runs_append_change:
  assumes "bs \<noteq> []" and "\<forall>b\<in>set bs. is_table_line b = t" and "is_table_line l \<noteq> t"
  shows "runs (bs @ l # ls) = (t, bs) # runs (l # ls)"
  using assms
proof (induction bs)
  case Nil
  then show ?case by simp
next
  case (Cons b bs)
  obtain r rs where h: "runs (l # ls) = (is_table_line l, l # r) # rs"
    using runs_head by blast
  show ?case
  proof (cases "bs = []")
    case True
    with Cons.prems h show ?thesis by auto
  next
    case False
    with Cons have "runs (bs @ l # ls) = (t, bs) # runs (l # ls)" by simp
    with Cons.prems show ?thesis by simp
  qed
qed

lemma render_lines_runs:
  assumes "bs \<noteq> []" and "\<forall>b\<in>set bs. is_table_line b = t"
  shows "finish e (render_lines e ls (if t then map strip bs else bs) t p) =
         render_runs e (runs (bs @ ls)) p"
  using assms
proof (induction ls arbitrary: bs t p)
  case Nil
  from runs_uniform [OF Nil.prems] Nil.prems(1) show ?case
    by (simp add: finish_def render_run_def split: sum.splits)
next
  case (Cons l ls)
  show ?case
  proof (cases "is_table_line l = t")
    case True
    have u: "\<forall>b\<in>set (bs @ [l]). is_table_line b = t"
      using Cons.prems True by auto
    have "finish e (render_lines e ls (if t then map strip (bs @ [l]) else bs @ [l]) t p) =
          render_runs e (runs ((bs @ [l]) @ ls)) p"
      by (rule Cons.IH) (simp_all add: u)
    with True Cons.prems(1) show ?thesis by auto
  next
    case False
    have split: "runs (bs @ l # ls) = (t, bs) # runs (l # ls)"
      using Cons.prems False by (rule runs_append_change)
    have next_run: "finish e (render_lines e ls (if is_table_line l then map strip [l] else [l])
          (is_table_line l) q) = render_runs e (runs ([l] @ ls)) q" for q
      by (rule Cons.IH) simp_all
    show ?thesis
    proof (cases t)
      case True
      with False have l: "\<not> is_table_line l" by simp
      show ?thesis
      proof (cases "flush_table e (map strip bs) p")
        case (Inl err)
        with True l show ?thesis
          by (simp add: split render_run_def finish_def)
      next
        case (Inr q)
        with True l next_run [of q] show ?thesis
          by (simp add: split render_run_def)
      qed
    next
      case f: False
      with False have l: "is_table_line l" by simp
      from f l Cons.prems(1) next_run [of "flush_prose e bs p"] show ?thesis
        by (simp add: split render_run_def)
    qed
  qed
qed

lemma render_content_runs:
  "render_content e content p = render_runs e (runs (split_on nl (strip content))) p"
proof -
  obtain l ls where ls: "split_on nl (strip content) = l # ls"
    using split_on_not_Nil [of nl "strip content"] by (cases "split_on nl (strip content)") auto
  have "finish e (render_lines e ls (if is_table_line l then map strip [l] else [l])
          (is_table_line l) p) = render_runs e (runs ([l] @ ls)) p"
    by (rule render_lines_runs) simp_all
  then show ?thesis
    by (cases "is_table_line l") (simp_all add: render_content_finish ls del: runs.simps)
qed

lemma runs_length: "ls \<noteq> [] \<Longrightarrow> length (runs ls) = Suc (classification_changes ls)"
proof (induction ls)
  case Nil
  then show ?case by simp
next
  case (Cons l ls)
  show ?case
  proof (cases ls)
    case Nil
    then show ?thesis by (simp add: classification_changes_def)
  next
    case (Cons m ms)
    obtain r rs where h: "runs (m # ms) = (is_table_line m, m # r) # rs"
      using runs_head by blast
    from Cons Cons.IH have "length (runs (m # ms)) = Suc (classification_changes (m # ms))"
      by simp
    with h Cons show ?thesis
      by (auto simp: classification_changes_def)
  qed
qed

subsection \<open>Rounding to doubles\<close>

text \<open>
  The rounding at values where Python prints \<^verbatim>\<open>0.1\<close>, \<^verbatim>\<open>0.30000000000000004\<close> for
  \<^verbatim>\<open>0.1 + 0.2\<close>, the two kinds of ties above \<open>2\<^sup>5\<^sup>3\<close>, and \<^verbatim>\<open>1 / 3\<close>.
\<close>

lemma fl_examples:
  "fl (1 / 10) = 3602879701896397 / 36028797018963968"
  "fadd (fl (1 / 10)) (fl (2 / 10)) = 1351079888211149 / 4503599627370496"
  "fl (2 ^ 53 + 1) = 2 ^ 53"
  "fl (2 ^ 53 + 3) = 2 ^ 53 + 4"
  "fdiv 1 3 = 6004799503160661 / 18014398509481984"
  by code_simp+

lemma fadd_35_10: "fadd 35 10 = 45"
  by code_simp

subsection \<open>Drawing calls\<close>

text \<open>
  Every drawing operation appends its calls to those made before. The title cell
  of the header is laid out at cursor 25; when it fits, \<^verbatim>\<open>add_page\<close> makes exactly the
  calls of \<^term>\<open>header_calls\<close> after its own.
\<close>

lemma blocks_append: "blocks (xs @ ys) = blocks xs @ blocks ys"
  by (induction xs rule: blocks.induct) simp_all

lemma blocks_header_calls: "blocks (header_calls e) = []"
  by (simp add: header_calls_def)

lemma AddPage_header_calls: "AddPage \<notin> set (header_calls e)"
  by (simp add: header_calls_def)

lemma blocks_auto_breaks: "blocks (auto_breaks e n) = []"
  unfolding auto_breaks_def
  by (induction n) (simp_all add: blocks_append blocks_header_calls)

lemma AddPage_auto_breaks: "AddPage \<notin> set (auto_breaks e n)"
  by (auto simp: auto_breaks_def AddPage_header_calls)

lemma auto_breaks_0: "auto_breaks e 0 = []"
  by (simp add: auto_breaks_def)

lemma calls_emit: "calls (emit c p) = calls p @ [c]"
  by (simp add: emit_def)

lemma calls_fpdf_ln: "calls (fpdf_ln h p) = calls p @ [Ln h]"
  by (simp add: fpdf_ln_def emit_def)

lemma calls_fpdf_set_y: "calls (fpdf_set_y v p) = calls p @ [SetY v]"
  by (simp add: fpdf_set_y_def emit_def)

lemma calls_fpdf_text:
  "calls (fpdf_text e c p) = calls p @ c # auto_breaks e (snd (flow e c (cur_y p, page p)))"
  by (simp add: fpdf_text_def split_def Let_def)

lemma state_fpdf_text:
  "cur_y (fpdf_text e c p) = fst (flow e c (cur_y p, page p))"
  "page (fpdf_text e c p) = page p + snd (flow e c (cur_y p, page p))"
  by (simp_all add: fpdf_text_def split_def Let_def)

lemma calls_fpdf_image: "calls (fpdf_image fig x y w p) = calls p @ [Image fig x y w]"
  by (simp add: fpdf_image_def emit_def)

lemma header_state:
  "cur_y (header e p) = fadd (fst (flow e (Cell 0 10 report_title) (25, page p))) 10"
  "page (header e p) = page p + snd (flow e (Cell 0 10 report_title) (25, page p))"
  "calls (header e p) =
     calls p @ (if logo_exists e then [Logo 10 8 30] else []) @
       [SetY 25, SetFont ''DejaVu'' ''B'' 16, SetTextColor 102 0 204, Cell 0 10 report_title] @
       auto_breaks e (snd (flow e (Cell 0 10 report_title) (25, page p))) @ [Ln 10]"
  by (simp_all add: header_def Let_def fpdf_ln_def fpdf_cell_def fpdf_text_def fpdf_set_y_def
      emit_def split_def)

lemma calls_header:
  "\<exists>cs. calls (header e p) = calls p @ cs \<and> blocks cs = [] \<and> AddPage \<notin> set cs"
proof -
  let ?cs = "(if logo_exists e then [Logo 10 8 30] else []) @
      [SetY 25, SetFont ''DejaVu'' ''B'' 16, SetTextColor 102 0 204, Cell 0 10 report_title] @
      auto_breaks e (snd (flow e (Cell 0 10 report_title) (25, page p))) @ [Ln 10]"
  have "calls (header e p) = calls p @ ?cs"
    by (simp add: header_state)
  moreover have "blocks ?cs = []"
    by (simp add: blocks_append blocks_auto_breaks)
  moreover have "AddPage \<notin> set ?cs"
    by (simp add: AddPage_auto_breaks)
  ultimately show ?thesis by blast
qed

lemma fpdf_add_page_state:
  "cur_y (fpdf_add_page e p) =
     fadd (fst (flow e (Cell 0 10 report_title) (25, Suc (page p)))) 10"
  "page (fpdf_add_page e p) =
     Suc (page p) + snd (flow e (Cell 0 10 report_title) (25, Suc (page p)))"
  by (simp_all add: fpdf_add_page_def header_state emit_def)

lemma calls_fpdf_add_page:
  "\<exists>cs. calls (fpdf_add_page e p) = calls p @ AddPage # cs \<and> blocks cs = [] \<and> AddPage \<notin> set cs"
proof -
  let ?q = "emit AddPage (p\<lparr>page := page p + 1, cur_y := t_margin e\<rparr>)"
  obtain cs where "calls (header e ?q) = calls ?q @ cs" "blocks cs = []" "AddPage \<notin> set cs"
    using calls_header by blast
  then show ?thesis by (simp add: fpdf_add_page_def calls_emit)
qed

lemma calls_fpdf_add_page_fits:
  assumes "flow e (Cell 0 10 report_title) (25, Suc (page p)) = (35, 0)"
  shows "calls (fpdf_add_page e p) = calls p @ AddPage # header_calls e"
  using assms
  by (simp add: fpdf_add_page_def header_state emit_def header_calls_def auto_breaks_0)

lemma new_calls_append: "calls p' = calls p @ cs \<Longrightarrow> new_calls p p' = cs"
  by (simp add: new_calls_def)

lemma calls_flush_prose:
  "calls (flush_prose e buffer p) =
     calls p @ MultiCell 0 8 (strip (join [nl] buffer)) #
       auto_breaks e
         (snd (flow e (MultiCell 0 8 (strip (join [nl] buffer))) (cur_y p, page p))) @ [Ln 5]"
  by (simp add: flush_prose_def calls_fpdf_ln fpdf_multi_cell_def calls_fpdf_text)

lemma state_flush_prose:
  "page (flush_prose e buffer p) =
     page p + snd (flow e (MultiCell 0 8 (strip (join [nl] buffer))) (cur_y p, page p))"
  "cur_y (flush_prose e buffer p) =
     fadd (fst (flow e (MultiCell 0 8 (strip (join [nl] buffer))) (cur_y p, page p))) 5"
  by (simp_all add: flush_prose_def fpdf_ln_def emit_def fpdf_multi_cell_def state_fpdf_text)

lemma render_table_placed:
  assumes "tmp_exists e" and "parse_markdown_table markdown = Inr grid"
    and "create_dynamic_table_image (clean_table_data grid) = Some fig"
    and "get_image_height e fig (fsub (page_w e) 20) = Inr h"
  shows "render_table e markdown p =
     Inr (fpdf_ln (fadd h 5)
       (fpdf_image fig 10
          (cur_y (if fadd (cur_y p) h > fsub (page_h e) 20 then fpdf_add_page e p else p))
          (fsub (page_w e) 20)
          (if fadd (cur_y p) h > fsub (page_h e) 20 then fpdf_add_page e p else p)))"
  using assms by (simp add: render_table_def Let_def)

subsection \<open>The blocks that a rendering draws\<close>

lemma create_image_grid:
  "create_dynamic_table_image data = Some fig \<Longrightarrow> col_labels fig # cell_text fig = data"
  by (auto simp: create_dynamic_table_image_def Let_def split: if_splits)

lemma render_table_success:
  assumes "tmp_exists e" and "render_table e markdown p = Inr q"
  obtains grid fig h where "parse_markdown_table markdown = Inr grid"
    and "create_dynamic_table_image (clean_table_data grid) = Some fig"
    and "get_image_height e fig (fsub (page_w e) 20) = Inr h"
  using assms
  by (auto simp: render_table_def Let_def split: sum.splits option.splits)

lemma render_table_blocks:
  assumes t: "tmp_exists e" and r: "render_table e markdown p = Inr q"
  shows "\<exists>cs grid. calls q = calls p @ cs \<and> parse_markdown_table markdown = Inr grid \<and>
           blocks cs = [TableImage (clean_table_data grid)]"
proof -
  from t r obtain grid fig h where g: "parse_markdown_table markdown = Inr grid"
    and f: "create_dynamic_table_image (clean_table_data grid) = Some fig"
    and h: "get_image_height e fig (fsub (page_w e) 20) = Inr h"
    by (rule render_table_success)
  note placed = render_table_placed [OF t g f h, of p]
  have lab: "col_labels fig # cell_text fig = clean_table_data grid"
    using f by (rule create_image_grid)
  show ?thesis
  proof (cases "fadd (cur_y p) h > fsub (page_h e) 20")
    case True
    obtain cs where cs: "calls (fpdf_add_page e p) = calls p @ AddPage # cs" "blocks cs = []"
      using calls_fpdf_add_page by blast
    from placed r True have
      "calls q = calls p @ (AddPage # cs) @
         [Image fig 10 (cur_y (fpdf_add_page e p)) (fsub (page_w e) 20), Ln (fadd h 5)]"
      by (auto simp: calls_fpdf_ln calls_fpdf_image cs)
    moreover have "blocks ((AddPage # cs) @
         [Image fig 10 (cur_y (fpdf_add_page e p)) (fsub (page_w e) 20), Ln (fadd h 5)]) =
         [TableImage (clean_table_data grid)]"
      by (simp add: blocks_append cs lab)
    ultimately show ?thesis using g by blast
  next
    case False
    from placed r False have
      "calls q = calls p @ [Image fig 10 (cur_y p) (fsub (page_w e) 20), Ln (fadd h 5)]"
      by (auto simp: calls_fpdf_ln calls_fpdf_image)
    moreover have "blocks [Image fig 10 (cur_y p) (fsub (page_w e) 20), Ln (fadd h 5)] =
         [TableImage (clean_table_data grid)]"
      by (simp add: lab)
    ultimately show ?thesis using g by blast
  qed
qed

lemma render_run_blocks:
  assumes t: "tmp_exists e" and r: "render_run e c ls p = Inr q"
  shows "\<exists>cs. calls q = calls p @ cs \<and> blocks cs = [run_block c ls]"
proof (cases c)
  case False
  with r have "q = flush_prose e ls p" by (simp add: render_run_def)
  then have "calls q = calls p @ MultiCell 0 8 (strip (join [nl] ls)) #
       auto_breaks e
         (snd (flow e (MultiCell 0 8 (strip (join [nl] ls))) (cur_y p, page p))) @ [Ln 5]"
    by (simp add: calls_flush_prose)
  moreover have "blocks (MultiCell 0 8 (strip (join [nl] ls)) #
       auto_breaks e
         (snd (flow e (MultiCell 0 8 (strip (join [nl] ls))) (cur_y p, page p))) @ [Ln 5]) =
       [run_block c ls]"
    using False by (simp add: run_block_def blocks_append blocks_auto_breaks)
  ultimately show ?thesis by blast
next
  case True
  with r obtain q' where q': "render_table e (join [nl] (map strip ls)) p = Inr q'"
    and q: "q = fpdf_ln 10 q'"
    by (auto simp: render_run_def flush_table_def split: sum.splits)
  from render_table_blocks [OF t q'] obtain cs grid where
    cs: "calls q' = calls p @ cs"
    and g: "parse_markdown_table (join [nl] (map strip ls)) = Inr grid"
    and b: "blocks cs = [TableImage (clean_table_data grid)]"
    by blast
  have "calls q = calls p @ (cs @ [Ln 10])"
    by (simp add: q calls_fpdf_ln cs)
  moreover have "blocks (cs @ [Ln 10]) = [run_block c ls]"
    using True by (simp add: blocks_append b run_block_def g)
  ultimately show ?thesis by blast
qed

lemma render_runs_blocks:
  assumes "tmp_exists e" and "render_runs e rs p = Inr q"
  shows "\<exists>cs. calls q = calls p @ cs \<and> blocks cs = map (\<lambda>(c, ls). run_block c ls) rs"
  using assms(2)
proof (induction rs arbitrary: p)
  case Nil
  then show ?case by simp
next
  case (Cons r rs)
  obtain c ls where r: "r = (c, ls)" by (cases r)
  from Cons.prems r obtain p1 where p1: "render_run e c ls p = Inr p1"
    and rest: "render_runs e rs p1 = Inr q"
    by (auto split: sum.splits)
  from render_run_blocks [OF assms(1) p1] obtain cs1 where
    cs1: "calls p1 = calls p @ cs1" "blocks cs1 = [run_block c ls]" by blast
  from Cons.IH [OF rest] obtain cs2 where
    cs2: "calls q = calls p1 @ cs2" "blocks cs2 = map (\<lambda>(c, ls). run_block c ls) rs" by blast
  have "calls q = calls p @ (cs1 @ cs2)" by (simp add: cs1 cs2)
  moreover have "blocks (cs1 @ cs2) = map (\<lambda>(c, ls). run_block c ls) (r # rs)"
    by (simp add: blocks_append cs1 cs2 r)
  ultimately show ?case by blast
qed

lemma runs_concat: "concat (map snd (runs ls)) = ls"
proof (induction ls)
  case Nil
  show ?case by simp
next
  case (Cons l ls)
  then show ?case by (cases "runs ls") (auto split: prod.splits)
qed

lemma runs_uniform_class:
  "(c, r) \<in> set (runs ls) \<Longrightarrow> r \<noteq> [] \<and> (\<forall>l\<in>set r. is_table_line l = c)"
proof (induction ls arbitrary: c r)
  case Nil
  then show ?case by simp
next
  case (Cons l ls)
  show ?case
  proof (cases "runs ls")
    case Nil
    with Cons.prems show ?thesis by simp
  next
    case (Cons h hs)
    obtain c' r' where h: "h = (c', r')" by (cases h)
    have "r' \<noteq> [] \<and> (\<forall>l\<in>set r'. is_table_line l = c')"
      using Cons.IH [of c' r'] Cons h by simp
    moreover have "(c, r) \<in> set hs \<Longrightarrow> r \<noteq> [] \<and> (\<forall>l\<in>set r. is_table_line l = c)"
      using Cons.IH [of c r] Cons by simp
    ultimately show ?thesis
      using Cons.prems Cons h by (auto split: if_splits)
  qed
qed

lemma runs_alternate: "distinct_adj (map fst (runs ls))"
proof (induction ls)
  case Nil
  show ?case by simp
next
  case (Cons l ls)
  then show ?case by (cases "runs ls") (auto split: prod.splits)
qed

lemma get_image_height_ok:
  "fst (image_dimensions e fig) \<noteq> 0 \<Longrightarrow> \<exists>h. get_image_height e fig w = Inr h"
  by (simp add: get_image_height_def split_def Let_def)

lemma render_table_ok:
  assumes "tmp_exists e" and "\<forall>fig. fst (image_dimensions e fig) \<noteq> 0"
    and g: "parse_markdown_table markdown = Inr grid"
  shows "\<exists>q. render_table e markdown p = Inr q"
proof -
  from parsed_grid_nonempty [OF g]
  obtain fig where f: "create_dynamic_table_image (clean_table_data grid) = Some fig"
    by auto
  from assms(2) obtain h where "get_image_height e fig (fsub (page_w e) 20) = Inr h"
    using get_image_height_ok by blast
  from render_table_placed [OF assms(1) g f this] show ?thesis by blast
qed

subsection \<open>The example body\<close>

lemma example_runs:
  "runs (body_lines example_body) =
     [(False, [''Summary line.'', []]),
      (True, [''| A | B |'', ''|---|---|'', ''| 1 | 2 |'']),
      (False, [[], ''More text.''])]"
  by (simp add: body_lines_def example_body_def is_table_line_def string_eval)

lemma example_table_parse:
  "parse_markdown_table (join [nl] (map strip [''| A | B |'', ''|---|---|'', ''| 1 | 2 |''])) =
     Inr [[[], ''A'', ''B'', []], [[], ''1'', ''2'', []]]"
proof -
  let ?t = "join [nl] (map strip [''| A | B |'', ''|---|---|'', ''| 1 | 2 |''])"
  have t: "?t = ''| A | B |'' @ [nl] @ ''|---|---|'' @ [nl] @ ''| 1 | 2 |''"
    by (simp add: string_eval)
  have v: "valid_table ?t"
    unfolding t by (simp add: valid_table_def list_all_iff string_eval)
  show ?thesis
    unfolding parse_valid [OF v] unfolding t
    by (simp add: max_cols_def padded_def string_eval)
qed

lemma example_table_clean:
  "clean_table_data [[[], ''A'', ''B'', []], [[], ''1'', ''2'', []]] =
     [[''A'', ''B''], [''1'', ''2'']]"
proof -
  let ?g = "[[[], ''A'', ''B'', []], [[], ''1'', ''2'', []]]"
  have k: "kept_cols ?g 4 = [1, 2]"
    by (simp add: grid_eval upt_rec)
  have "?g \<noteq> []" and "\<forall>row\<in>set ?g. length row = 4" by simp_all
  from clean_table_data_rect [OF this] show ?thesis by (simp add: k)
qed

lemma example_blocks:
  "map (\<lambda>(c, ls). run_block c ls) (runs (body_lines example_body)) =
     [ProseBlock ''Summary line.'', TableImage [[''A'', ''B''], [''1'', ''2'']],
      ProseBlock ''More text.'']"
proof -
  have a: "run_block False [''Summary line.'', []] = ProseBlock ''Summary line.''"
    by (simp add: run_block_def string_eval)
  have b: "run_block True [''| A | B |'', ''|---|---|'', ''| 1 | 2 |''] =
      TableImage [[''A'', ''B''], [''1'', ''2'']]"
    by (simp only: run_block_def example_table_parse example_table_clean if_True sum.case)
  have c: "run_block False [[], ''More text.''] = ProseBlock ''More text.''"
    by (simp add: run_block_def string_eval)
  show ?thesis by (simp only: example_runs list.map prod.case a b c)
qed

lemma example_renders:
  assumes "tmp_exists e" and "\<forall>fig. fst (image_dimensions e fig) \<noteq> 0"
  shows "\<exists>q. render_content e example_body p = Inr q"
proof -
  let ?p1 = "flush_prose e [''Summary line.'', []] p"
  obtain q1 where q1: "render_table e
      (join [nl] (map strip [''| A | B |'', ''|---|---|'', ''| 1 | 2 |''])) ?p1 = Inr q1"
    using render_table_ok [OF assms example_table_parse] by blast
  have "render_runs e (runs (body_lines example_body)) p =
      Inr (flush_prose e [[], ''More text.''] (fpdf_ln 10 q1))"
    by (simp only: example_runs render_runs.simps render_run_def if_False if_True
        sum.case flush_table_def q1)
  then show ?thesis
    by (simp add: render_content_runs body_lines_def)
qed

subsection \<open>Failures\<close>

text \<open>
  A table run whose markup fails to parse makes every enclosing step fail, and when no
  image has width zero a failure is always the table-parse error.
\<close>

lemma render_table_parse_error:
  "parse_markdown_table markdown = Inl err \<Longrightarrow> render_table e markdown p = Inl err"
  by (simp add: render_table_def)

lemma render_table_error_malformed:
  assumes "render_table e markdown p = Inl err" and "\<forall>fig. fst (image_dimensions e fig) \<noteq> 0"
  shows "MalformedTable err"
proof (cases "parse_markdown_table markdown")
  case (Inl err')
  with assms(1) have "err = err'" by (simp add: render_table_def)
  with Inl show ?thesis by (simp add: parse_Inl_MalformedTable)
next
  case (Inr grid)
  from parsed_grid_nonempty [OF Inr]
  obtain fig where f: "create_dynamic_table_image (clean_table_data grid) = Some fig" by auto
  obtain h where "get_image_height e fig (fsub (page_w e) 20) = Inr h"
    using get_image_height_ok assms(2) by blast
  with assms(1) Inr f show ?thesis
    by (auto simp: render_table_def Let_def split: if_splits)
qed

lemma render_runs_malformed:
  assumes "list_ex (\<lambda>(c, ls). c \<and> isl (parse_markdown_table (join [nl] (map strip ls)))) rs"
  shows "\<exists>err. render_runs e rs p = Inl err"
  using assms
proof (induction rs arbitrary: p)
  case Nil
  then show ?case by simp
next
  case (Cons r rs)
  obtain c ls where r: "r = (c, ls)" by (cases r)
  show ?case
  proof (cases "render_run e c ls p")
    case (Inl err)
    with r show ?thesis by simp
  next
    case (Inr p1)
    have "\<not> (c \<and> isl (parse_markdown_table (join [nl] (map strip ls))))"
    proof
      assume a: "c \<and> isl (parse_markdown_table (join [nl] (map strip ls)))"
      then obtain err where "parse_markdown_table (join [nl] (map strip ls)) = Inl err"
        by (auto simp: isl_def)
      then have "render_table e (join [nl] (map strip ls)) p = Inl err"
        by (rule render_table_parse_error)
      with a Inr show False by (simp add: render_run_def flush_table_def)
    qed
    with Cons.prems r have "list_ex (\<lambda>(c, ls). c \<and>
        isl (parse_markdown_table (join [nl] (map strip ls)))) rs" by simp
    from Cons.IH [OF this, of p1] Inr r show ?thesis by simp
  qed
qed

lemma render_runs_error_malformed:
  assumes "render_runs e rs p = Inl err" and "\<forall>fig. fst (image_dimensions e fig) \<noteq> 0"
  shows "MalformedTable err"
  using assms(1)
proof (induction rs arbitrary: p)
  case Nil
  then show ?case by simp
next
  case (Cons r rs)
  obtain c ls where r: "r = (c, ls)" by (cases r)
  show ?case
  proof (cases "render_run e c ls p")
    case (Inl err')
    with Cons.prems r have e: "err' = err" by simp
    from Inl have "render_table e (join [nl] (map strip ls)) p = Inl err'"
      by (auto simp: render_run_def flush_table_def split: if_splits sum.splits)
    from render_table_error_malformed [OF this assms(2)] e show ?thesis by simp
  next
    case (Inr p1)
    with Cons.prems r have "render_runs e rs p1 = Inl err" by simp
    then show ?thesis by (rule Cons.IH)
  qed
qed

lemma render_content_malformed:
  "malformed_body content \<Longrightarrow> \<exists>err. render_content e content p = Inl err"
  unfolding malformed_body_def body_lines_def render_content_runs
  by (rule render_runs_malformed)

lemma render_content_error_malformed:
  "render_content e content p = Inl err \<Longrightarrow> \<forall>fig. fst (image_dimensions e fig) \<noteq> 0 \<Longrightarrow>
   MalformedTable err"
  unfolding render_content_runs by (rule render_runs_error_malformed)

lemma add_section_malformed:
  "malformed_body content \<Longrightarrow> \<exists>err. add_section e title content d p = Inl err"
proof -
  assume m: "malformed_body content"
  let ?p3 = "(let p1 = (if d
                then emit (SetFont ''DejaVu'' ''I'' 8) (emit (SetTextColor 0 0 0) p)
                else emit (SetFont ''DejaVu'' ''B'' 12) (emit (SetTextColor 153 102 255) p));
          p2 = fpdf_ln 3 (fpdf_cell e 0 10 title p1)
      in (if \<not> d
                then emit (SetTextColor 0 0 0) (emit (SetFont ''DejaVu'' [] 10) p2)
                else p2))"
  obtain err where "render_content e content ?p3 = Inl err"
    using render_content_malformed [OF m] by blast
  then show ?thesis by (simp add: add_section_def Let_def)
qed

lemma add_section_error_malformed:
  assumes "add_section e title content d p = Inl err"
    and "\<forall>fig. fst (image_dimensions e fig) \<noteq> 0"
  shows "MalformedTable err"
proof -
  from assms(1) obtain p3 where "render_content e content p3 = Inl err"
    by (auto simp: add_section_def Let_def split: sum.splits)
  then show ?thesis using assms(2) by (rule render_content_error_malformed)
qed

lemma add_sections_malformed:
  assumes "\<exists>(title, content)\<in>set secs. malformed_body content"
  shows "\<exists>err. add_sections e secs p = Inl err"
  using assms
proof (induction secs arbitrary: p)
  case Nil
  then show ?case by simp
next
  case (Cons s secs)
  obtain title content where s: "s = (title, content)" by (cases s)
  show ?case
  proof (cases "add_section e title content False p")
    case (Inl err)
    with s show ?thesis by simp
  next
    case (Inr p1)
    with add_section_malformed [of content e title False p]
    have "\<not> malformed_body content" by auto
    with Cons.prems s have "\<exists>(title, content)\<in>set secs. malformed_body content" by simp
    from Cons.IH [OF this, of p1] Inr s show ?thesis by simp
  qed
qed

lemma add_sections_error_malformed:
  assumes "add_sections e secs p = Inl err" and "\<forall>fig. fst (image_dimensions e fig) \<noteq> 0"
  shows "MalformedTable err"
  using assms(1)
proof (induction secs arbitrary: p)
  case Nil
  then show ?case by simp
next
  case (Cons s secs)
  obtain title content where s: "s = (title, content)" by (cases s)
  show ?case
  proof (cases "add_section e title content False p")
    case (Inl err')
    with Cons.prems s have "err' = err" by simp
    with Inl add_section_error_malformed [OF _ assms(2)] show ?thesis by blast
  next
    case (Inr p1)
    with Cons.prems s have "add_sections e secs p1 = Inl err" by simp
    then show ?thesis by (rule Cons.IH)
  qed
qed

lemma render_document_malformed:
  assumes "\<exists>(title, content)\<in>set (dict_items body). malformed_body content"
  shows "\<exists>err. render_document e body = Inl err"
proof -
  from assms have m: "\<exists>(title, content)\<in>set (user_sections body). malformed_body content"
    by (force simp: user_sections_def)
  show ?thesis
  proof (cases "add_sections e fixed_content (fpdf_add_page e (StyledPDF e))")
    case (Inl err)
    then show ?thesis by (simp add: render_document_def)
  next
    case (Inr p1)
    obtain err where "add_sections e (user_sections body) p1 = Inl err"
      using add_sections_malformed [OF m] by blast
    with Inr show ?thesis by (simp add: render_document_def user_sections_def)
  qed
qed

lemma render_document_error_malformed:
  assumes "render_document e body = Inl err" and "\<forall>fig. fst (image_dimensions e fig) \<noteq> 0"
  shows "MalformedTable err"
  using assms(1)
  by (auto simp: render_document_def Let_def split: sum.splits
      dest: add_sections_error_malformed [OF _ assms(2)]
            add_section_error_malformed [OF _ assms(2)])

subsection \<open>Evaluations for the examples\<close>

lemma demo_malformed: "malformed_body (''Intro'' @ [nl] @ ''| A |'' @ [nl] @ ''| 1 |'')"
proof -
  have r: "runs (body_lines (''Intro'' @ [nl] @ ''| A |'' @ [nl] @ ''| 1 |'')) =
      [(False, [''Intro'']), (True, [''| A |'', ''| 1 |''])]"
    by (simp add: body_lines_def is_table_line_def string_eval)
  have "length (nonblank_lines (join [nl] (map strip [''| A |'', ''| 1 |'']))) < 3"
    by (simp add: string_eval)
  from parse_insufficient [OF this]
  have p: "isl (parse_markdown_table (join [nl] (map strip [''| A |'', ''| 1 |''])))"
    by (simp only: sum.disc)
  show ?thesis
    unfolding malformed_body_def r using p by simp
qed

lemma generate_pdf_events: "events (generate_pdf e body) \<noteq> []"
  by (simp add: generate_pdf_def Let_def split: sum.splits option.splits)

lemma demo_table_parse:
  "parse_markdown_table demo_table = Inr [[''A'', ''B''], [''1'', ''2'']]"
proof -
  have v: "valid_table demo_table"
    by (simp add: demo_table_def valid_table_def list_all_iff string_eval)
  show ?thesis
    unfolding parse_valid [OF v]
    by (simp add: demo_table_def max_cols_def padded_def string_eval)
qed

lemma demo_table_clean:
  "clean_table_data [[''A'', ''B''], [''1'', ''2'']] = [[''A'', ''B''], [''1'', ''2'']]"
proof -
  let ?g = "[[''A'', ''B''], [''1'', ''2'']]"
  have k: "kept_cols ?g 2 = [0, 1]"
    by (simp add: grid_eval upt_rec)
  have "?g \<noteq> []" and "\<forall>row\<in>set ?g. length row = 2" by simp_all
  from clean_table_data_rect [OF this] show ?thesis by (simp add: k)
qed

lemma demo_floats:
  "fmul (fl 2) (1 / 2) = 1" "fsub 210 20 = 190" "fsub 297 20 = 277"
  "fdiv 100 200 = 1 / 2" "fmul 190 (1 / 2) = 95"
  "fadd 200 95 = 295" "fadd 100 95 = 195" "fadd 95 5 = 100"
  "fadd 45 100 = 145" "fadd 100 100 = 200"
  "fadd demo_edge 95 = 277"
  "fadd demo_edge 100 = 282"
  by code_simp+

lemma demo_table_figure:
  "create_dynamic_table_image (clean_table_data [[''A'', ''B''], [''1'', ''2'']]) = Some demo_figure"
  unfolding demo_table_clean
  by (simp add: create_dynamic_table_image_def zip_star_def Let_def demo_figure_def upt_rec
      demo_floats)

lemma demo_table_height:
  "get_image_height demo_env demo_figure (fsub (page_w demo_env) 20) = Inr 95"
  by (simp add: get_image_height_def demo_env_def demo_floats)

section \<open>The claims\<close>

text \<open>
  Claim C1. For valid table markup with \<open>n\<close> data rows, \<^verbatim>\<open>parse_markdown_table\<close> returns
  a grid of \<open>n + 1\<close> rows, the header first and the separator left out. Each row of the
  grid is the trimmed cells of its line followed by empty strings up to the width of
  the widest of the header and the data rows, so every row has exactly that width and no
  row is cut. The markup \<^verbatim>\<open>"A|B\n--|--\n1|\n|2"\<close> parses to
  \<^verbatim>\<open>[["A","B"],["1",""],["","2"]]\<close>.
\<close>

theorem parse_pads_to_widest_row:
  "(valid_table markdown \<longrightarrow>
      (\<exists>grid. parse_markdown_table markdown = Inr grid \<and>
         length grid = length (data_rows markdown) + 1 \<and>
         grid = map (padded (max_cols markdown)) (header_cells markdown # data_rows markdown) \<and>
         (\<forall>row\<in>set grid. length row = max_cols markdown) \<and>
         (\<forall>row\<in>set (header_cells markdown # data_rows markdown).
            length row \<le> max_cols markdown))) \<and>
   parse_markdown_table (''A|B'' @ [nl] @ ''--|--'' @ [nl] @ ''1|'' @ [nl] @ ''|2'') =
     Inr [[''A'', ''B''], [''1'', []], [[], ''2'']]"
proof (intro conjI impI)
  assume v: "valid_table markdown"
  let ?cells = "header_cells markdown # data_rows markdown"
  have le: "\<forall>row\<in>set ?cells. length row \<le> max_cols markdown"
    unfolding max_cols_def by (auto intro!: Max_ge)
  then have "\<forall>row\<in>set (map (padded (max_cols markdown)) ?cells). length row = max_cols markdown"
    by (auto simp: padded_def)
  with le parse_valid [OF v]
  show "\<exists>grid. parse_markdown_table markdown = Inr grid \<and>
         length grid = length (data_rows markdown) + 1 \<and>
         grid = map (padded (max_cols markdown)) ?cells \<and>
         (\<forall>row\<in>set grid. length row = max_cols markdown) \<and>
         (\<forall>row\<in>set ?cells. length row \<le> max_cols markdown)"
    by simp
next
  have v: "valid_table (''A|B'' @ [nl] @ ''--|--'' @ [nl] @ ''1|'' @ [nl] @ ''|2'')"
    by (simp add: valid_table_def list_all_iff string_eval)
  show "parse_markdown_table (''A|B'' @ [nl] @ ''--|--'' @ [nl] @ ''1|'' @ [nl] @ ''|2'') =
     Inr [[''A'', ''B''], [''1'', []], [[], ''2'']]"
    unfolding parse_valid [OF v]
    by (simp add: max_cols_def padded_def string_eval)
qed

theorem parse_pads_to_widest_row_witness:
  "valid_table (''H'' @ [nl] @ ''-'' @ [nl] @ '' a | b |c '' @ [nl] @ ''d|e'') \<and>
   max_cols (''H'' @ [nl] @ ''-'' @ [nl] @ '' a | b |c '' @ [nl] @ ''d|e'') = 3 \<and>
   parse_markdown_table (''H'' @ [nl] @ ''-'' @ [nl] @ '' a | b |c '' @ [nl] @ ''d|e'') =
     Inr [[''H'', [], []], [''a'', ''b'', ''c''], [''d'', ''e'', []]]"
proof -
  let ?t = "''H'' @ [nl] @ ''-'' @ [nl] @ '' a | b |c '' @ [nl] @ ''d|e''"
  have v: "valid_table ?t"
    by (simp add: valid_table_def list_all_iff string_eval)
  have m: "max_cols ?t = 3"
    by (simp add: max_cols_def string_eval)
  have g: "map (padded (max_cols ?t)) (header_cells ?t # data_rows ?t) =
      [[''H'', [], []], [''a'', ''b'', ''c''], [''d'', ''e'', []]]"
    unfolding m by (simp add: padded_def string_eval numeral_2_eq_2 numeral_3_eq_3)
  from parse_pads_to_widest_row [of ?t] v m g show ?thesis by auto
qed

text \<open>
  Claim C2. \<^verbatim>\<open>render_content\<close> classifies a line as table exactly when it contains the
  bar, and renders the body run by run: the runs are the maximal sequences of lines of
  one classification, they make up the body in order, neighbouring runs differ in their
  classification, and there is one flush per run, that is one per classification change
  and one at the end. When the rendering succeeds, the prose blocks and table images
  drawn are, in order, one block per run, each built from the lines of its run only.
  The body \<^verbatim>\<open>"Summary line.\n\n| A | B |\n|---|---|\n| 1 | 2 |\n\nMore text."\<close> is
  drawn as the prose block \<^verbatim>\<open>Summary line.\<close>, the table image of the grid
  \<^verbatim>\<open>[["A","B"],["1","2"]]\<close> and the prose block \<^verbatim>\<open>More text.\<close>, in that order.
\<close>

theorem render_content_order:
  "render_content e content p = render_runs e (runs (body_lines content)) p \<and>
   concat (map snd (runs (body_lines content))) = body_lines content \<and>
   (\<forall>(c, r)\<in>set (runs (body_lines content)). r \<noteq> [] \<and> (\<forall>l\<in>set r. (bar \<in> set l) = c)) \<and>
   distinct_adj (map fst (runs (body_lines content))) \<and>
   length (runs (body_lines content)) = Suc (classification_changes (body_lines content)) \<and>
   (tmp_exists e \<and> render_content e content p = Inr q \<longrightarrow>
      blocks (new_calls p q) = map (\<lambda>(c, ls). run_block c ls) (runs (body_lines content))) \<and>
   (tmp_exists e \<and> (\<forall>fig. fst (image_dimensions e fig) \<noteq> 0) \<longrightarrow>
      (\<exists>q'. render_content e example_body p = Inr q' \<and>
         blocks (new_calls p q') =
           [ProseBlock ''Summary line.'', TableImage [[''A'', ''B''], [''1'', ''2'']],
            ProseBlock ''More text.'']))"
proof -
  have order: "blocks (new_calls p q) = map (\<lambda>(c, ls). run_block c ls) (runs (body_lines c'))"
    if "tmp_exists e" and "render_content e c' p = Inr q" for c' q
  proof -
    from that(2) have "render_runs e (runs (body_lines c')) p = Inr q"
      by (simp add: render_content_runs body_lines_def)
    from render_runs_blocks [OF that(1) this] obtain cs where
      "calls q = calls p @ cs" "blocks cs = map (\<lambda>(c, ls). run_block c ls) (runs (body_lines c'))"
      by blast
    then show ?thesis by (simp add: new_calls_append)
  qed
  have ne: "body_lines content \<noteq> []"
    by (simp add: body_lines_def split_on_not_Nil)
  have 1: "render_content e content p = render_runs e (runs (body_lines content)) p"
    by (simp add: render_content_runs body_lines_def)
  have 2: "concat (map snd (runs (body_lines content))) = body_lines content"
    by (rule runs_concat)
  have 3: "\<forall>(c, r)\<in>set (runs (body_lines content)). r \<noteq> [] \<and> (\<forall>l\<in>set r. (bar \<in> set l) = c)"
    using runs_uniform_class [of _ _ "body_lines content"]
    by (auto simp: is_table_line_def)
  have 4: "distinct_adj (map fst (runs (body_lines content)))"
    by (rule runs_alternate)
  have 5: "length (runs (body_lines content)) = Suc (classification_changes (body_lines content))"
    using ne by (rule runs_length)
  have 6: "tmp_exists e \<and> render_content e content p = Inr q \<longrightarrow>
      blocks (new_calls p q) = map (\<lambda>(c, ls). run_block c ls) (runs (body_lines content))"
    using order by blast
  have 7: "tmp_exists e \<and> (\<forall>fig. fst (image_dimensions e fig) \<noteq> 0) \<longrightarrow>
      (\<exists>q'. render_content e example_body p = Inr q' \<and>
         blocks (new_calls p q') =
           [ProseBlock ''Summary line.'', TableImage [[''A'', ''B''], [''1'', ''2'']],
            ProseBlock ''More text.''])"
  proof
    assume a: "tmp_exists e \<and> (\<forall>fig. fst (image_dimensions e fig) \<noteq> 0)"
    then obtain q' where q': "render_content e example_body p = Inr q'"
      using example_renders by blast
    from order [OF _ q'] a example_blocks show "\<exists>q'. render_content e example_body p = Inr q' \<and>
         blocks (new_calls p q') =
           [ProseBlock ''Summary line.'', TableImage [[''A'', ''B''], [''1'', ''2'']],
            ProseBlock ''More text.'']"
      using q' by simp
  qed
  from 1 2 3 4 5 6 7 show ?thesis by blast
qed

theorem render_content_order_witness:
  "tmp_exists demo_env \<and>
   length (runs (body_lines example_body)) = 3 \<and>
   classification_changes (body_lines example_body) = 2 \<and>
   (\<exists>q. render_content demo_env example_body (demo_pdf 100) = Inr q \<and>
      blocks (new_calls (demo_pdf 100) q) =
        [ProseBlock ''Summary line.'', TableImage [[''A'', ''B''], [''1'', ''2'']],
         ProseBlock ''More text.''])"
proof -
  have t: "tmp_exists demo_env" by (simp add: demo_env_def)
  have d: "\<forall>fig. fst (image_dimensions demo_env fig) \<noteq> 0" by (simp add: demo_env_def)
  have l: "length (runs (body_lines example_body)) = 3"
    by (simp only: example_runs) simp
  note o = render_content_order [of demo_env example_body "demo_pdf 100"]
  from o l have c: "classification_changes (body_lines example_body) = 2" by simp
  from o t d have "\<exists>q. render_content demo_env example_body (demo_pdf 100) = Inr q \<and>
      blocks (new_calls (demo_pdf 100) q) =
        [ProseBlock ''Summary line.'', TableImage [[''A'', ''B''], [''1'', ''2'']],
         ProseBlock ''More text.'']"
    by blast
  with t l c show ?thesis by blast
qed

text \<open>
  Claim C3. When \<^verbatim>\<open>render_table\<close> places a table image of computed height \<open>h\<close> with the
  cursor at \<open>y\<close>, it calls \<^verbatim>\<open>add_page\<close> before the placement, and the document is on a
  later page afterwards, if and only if \<open>y + h\<close> exceeds the page height minus the
  bottom margin, sum and difference being the rounded ones that the code computes. In
  that case the image is placed at the cursor of the new page, which is 10 below where
  the library leaves the cursor after the title cell of the header; when that cell fits
  (the library moves from 25 to 35 and starts no page), the document is on the next page
  and the calls made are \<^verbatim>\<open>add_page\<close>, those of the header, the image at cursor 45, and
  the line break. Otherwise the page stays and the image is placed at \<open>y\<close>. Flushing a
  prose buffer issues the text cell at the cursor, whatever it is, and never calls
  \<^verbatim>\<open>add_page\<close>: pages are started there only by the library while it lays out the
  text.
\<close>

theorem table_page_break:
  assumes "tmp_exists e" and "parse_markdown_table markdown = Inr grid"
    and "create_dynamic_table_image (clean_table_data grid) = Some fig"
    and "get_image_height e fig (fsub (page_w e) 20) = Inr h"
  shows "\<exists>p'. render_table e markdown p = Inr p' \<and>
      (AddPage \<in> set (new_calls p p') \<longleftrightarrow>
         fadd (cur_y p) h > fsub (page_h e) bottom_margin) \<and>
      (page p < page p' \<longleftrightarrow> fadd (cur_y p) h > fsub (page_h e) bottom_margin) \<and>
      (fadd (cur_y p) h > fsub (page_h e) bottom_margin \<longrightarrow>
         page p' = Suc (page p) + snd (flow e (Cell 0 10 report_title) (25, Suc (page p))) \<and>
         cur_y (fpdf_add_page e p) =
           fadd (fst (flow e (Cell 0 10 report_title) (25, Suc (page p)))) 10 \<and>
         (\<exists>cs. new_calls p p' =
            AddPage # cs @
            [Image fig 10 (fadd (fst (flow e (Cell 0 10 report_title) (25, Suc (page p)))) 10)
               (fsub (page_w e) 20),
             Ln (fadd h 5)] \<and> AddPage \<notin> set cs) \<and>
         cur_y p' =
           fadd (fadd (fst (flow e (Cell 0 10 report_title) (25, Suc (page p)))) 10)
             (fadd h 5)) \<and>
      (fadd (cur_y p) h > fsub (page_h e) bottom_margin \<and>
       flow e (Cell 0 10 report_title) (25, Suc (page p)) = (35, 0) \<longrightarrow>
         page p' = Suc (page p) \<and>
         new_calls p p' =
           AddPage # header_calls e @ [Image fig 10 45 (fsub (page_w e) 20), Ln (fadd h 5)] \<and>
         cur_y p' = fadd 45 (fadd h 5)) \<and>
      (\<not> fadd (cur_y p) h > fsub (page_h e) bottom_margin \<longrightarrow>
         page p' = page p \<and>
         new_calls p p' = [Image fig 10 (cur_y p) (fsub (page_w e) 20), Ln (fadd h 5)] \<and>
         cur_y p' = fadd (cur_y p) (fadd h 5)) \<and>
      new_calls p (flush_prose e buffer p) =
        MultiCell 0 8 (strip (join [nl] buffer)) #
          auto_breaks e
            (snd (flow e (MultiCell 0 8 (strip (join [nl] buffer))) (cur_y p, page p))) @
          [Ln 5] \<and>
      AddPage \<notin> set (new_calls p (flush_prose e buffer p)) \<and>
      page (flush_prose e buffer p) =
        page p + snd (flow e (MultiCell 0 8 (strip (join [nl] buffer))) (cur_y p, page p))"
proof -
  note r = render_table_placed [OF assms, of p]
  let ?w = "fsub (page_w e) 20"
  let ?F = "flow e (Cell 0 10 report_title) (25, Suc (page p))"
  have prose: "new_calls p (flush_prose e buffer p) =
        MultiCell 0 8 (strip (join [nl] buffer)) #
          auto_breaks e
            (snd (flow e (MultiCell 0 8 (strip (join [nl] buffer))) (cur_y p, page p))) @
          [Ln 5]"
    by (rule new_calls_append) (simp add: calls_flush_prose)
  have prose_no_add: "AddPage \<notin> set (new_calls p (flush_prose e buffer p))"
    unfolding prose by (simp add: AddPage_auto_breaks)
  note prose_page = state_flush_prose(1) [of e buffer p]
  show ?thesis
  proof (cases "fadd (cur_y p) h > fsub (page_h e) 20")
    case True
    let ?q = "fpdf_add_page e p"
    let ?y = "fadd (fst ?F) 10"
    let ?p' = "fpdf_ln (fadd h 5) (fpdf_image fig 10 (cur_y ?q) ?w ?q)"
    from r True have res: "render_table e markdown p = Inr ?p'" by simp
    have y: "cur_y ?q = ?y" by (rule fpdf_add_page_state)
    obtain cs where cs: "calls ?q = calls p @ AddPage # cs" "AddPage \<notin> set cs"
      using calls_fpdf_add_page by blast
    have "calls ?p' = calls p @ AddPage # cs @ [Image fig 10 ?y ?w, Ln (fadd h 5)]"
      by (simp add: calls_fpdf_ln calls_fpdf_image cs y)
    then have n: "new_calls p ?p' = AddPage # cs @ [Image fig 10 ?y ?w, Ln (fadd h 5)]"
      by (rule new_calls_append)
    then have added: "AddPage \<in> set (new_calls p ?p')" by simp
    have pg: "page ?p' = Suc (page p) + snd ?F"
      by (simp add: fpdf_ln_def fpdf_image_def emit_def fpdf_add_page_state)
    have cy: "cur_y ?p' = fadd ?y (fadd h 5)"
      by (simp add: fpdf_ln_def fpdf_image_def emit_def fpdf_add_page_state)
    have general: "\<exists>cs. new_calls p ?p' = AddPage # cs @ [Image fig 10 ?y ?w, Ln (fadd h 5)] \<and>
        AddPage \<notin> set cs"
      using n cs(2) by blast
    have fits: "page ?p' = Suc (page p) \<and>
         new_calls p ?p' = AddPage # header_calls e @ [Image fig 10 45 ?w, Ln (fadd h 5)] \<and>
         cur_y ?p' = fadd 45 (fadd h 5)"
      if t: "?F = (35, 0)"
    proof -
      have "calls ?p' = calls p @ AddPage # header_calls e @ [Image fig 10 45 ?w, Ln (fadd h 5)]"
        by (simp add: calls_fpdf_ln calls_fpdf_image calls_fpdf_add_page_fits [OF t] y t
            fadd_35_10)
      then have "new_calls p ?p' = AddPage # header_calls e @ [Image fig 10 45 ?w, Ln (fadd h 5)]"
        by (rule new_calls_append)
      with pg cy t show ?thesis by (simp add: fadd_35_10)
    qed
    from pg have more: "page p < page ?p'" by simp
    from True res added more pg y general cy fits prose prose_no_add prose_page show ?thesis
      by (simp add: bottom_margin_def)
  next
    case False
    let ?p' = "fpdf_ln (fadd h 5) (fpdf_image fig 10 (cur_y p) ?w p)"
    from r False have res: "render_table e markdown p = Inr ?p'" by simp
    have "calls ?p' = calls p @ [Image fig 10 (cur_y p) ?w, Ln (fadd h 5)]"
      by (simp add: calls_fpdf_ln calls_fpdf_image)
    then have n: "new_calls p ?p' = [Image fig 10 (cur_y p) ?w, Ln (fadd h 5)]"
      by (rule new_calls_append)
    have st: "page ?p' = page p" "cur_y ?p' = fadd (cur_y p) (fadd h 5)"
      by (simp_all add: fpdf_ln_def fpdf_image_def emit_def)
    from False res n st prose prose_no_add prose_page show ?thesis
      by (simp add: bottom_margin_def)
  qed
qed

theorem table_page_break_witness:
  "tmp_exists demo_env \<and>
   get_image_height demo_env demo_figure (fsub (page_w demo_env) 20) = Inr 95 \<and>
   flow demo_env (Cell 0 10 report_title) (25, Suc (page (demo_pdf 200))) = (35, 0) \<and>
   fadd (cur_y (demo_pdf 200)) 95 > fsub (page_h demo_env) bottom_margin \<and>
   render_table demo_env demo_table (demo_pdf 200) =
     Inr \<lparr>cur_y = 145, page = 2,
          calls = [AddPage, SetY 25, SetFont ''DejaVu'' ''B'' 16, SetTextColor 102 0 204,
                   Cell 0 10 report_title, Ln 10, Image demo_figure 10 45 190, Ln 100]\<rparr> \<and>
   \<not> fadd (cur_y (demo_pdf 100)) 95 > fsub (page_h demo_env) bottom_margin \<and>
   render_table demo_env demo_table (demo_pdf 100) =
     Inr \<lparr>cur_y = 200, page = 1, calls = [Image demo_figure 10 100 190, Ln 100]\<rparr> \<and>
   cur_y (demo_pdf demo_edge) + 95 > page_h demo_env - bottom_margin \<and>
   \<not> fadd (cur_y (demo_pdf demo_edge)) 95 > fsub (page_h demo_env) bottom_margin \<and>
   render_table demo_env demo_table (demo_pdf demo_edge) =
     Inr \<lparr>cur_y = 282, page = 1,
          calls = [Image demo_figure 10 demo_edge 190, Ln 100]\<rparr>"
proof -
  have t: "tmp_exists demo_env" by (simp add: demo_env_def)
  have f: "flow demo_env (Cell 0 10 report_title) (25, Suc (page (demo_pdf y))) = (35, 0)" for y
    by (simp add: demo_env_def)
  have hc: "header_calls demo_env =
      [SetY 25, SetFont ''DejaVu'' ''B'' 16, SetTextColor 102 0 204,
       Cell 0 10 report_title, Ln 10]"
    by (simp add: header_calls_def demo_env_def)
  have g: "page_w demo_env = 210" "page_h demo_env = 297" "bottom_margin = 20"
    "cur_y (demo_pdf y) = y" "page (demo_pdf y) = 1" "calls (demo_pdf y) = []" for y
    by (simp_all add: demo_env_def bottom_margin_def demo_pdf_def)
  have a: "fadd (cur_y (demo_pdf 200)) 95 > fsub (page_h demo_env) bottom_margin"
    by (simp add: g demo_floats)
  have b: "\<not> fadd (cur_y (demo_pdf 100)) 95 > fsub (page_h demo_env) bottom_margin"
    by (simp add: g demo_floats)
  have c: "\<not> fadd (cur_y (demo_pdf demo_edge)) 95 >
      fsub (page_h demo_env) bottom_margin"
    by (simp add: g demo_floats)
  have c': "cur_y (demo_pdf demo_edge) + 95 > page_h demo_env - bottom_margin"
    by (simp add: g demo_edge_def)
  note pb = table_page_break [OF t demo_table_parse demo_table_figure demo_table_height]
  have eq: "q = \<lparr>cur_y = cur_y q, page = page q, calls = calls q\<rparr>" for q :: pdf
    by simp
  have n: "new_calls (demo_pdf y) q = calls q" for y q
    by (simp add: new_calls_def g)
  from pb [of "demo_pdf 200" "[]"] a f [of 200]
  obtain p1 where p1: "render_table demo_env demo_table (demo_pdf 200) = Inr p1"
    "page p1 = Suc (Suc 0)" "cur_y p1 = 145"
    "calls p1 = AddPage # header_calls demo_env @ [Image demo_figure 10 45 190, Ln 100]"
    by (auto simp: g demo_floats n)
  from pb [of "demo_pdf 100" "[]"] b
  obtain p2 where p2: "render_table demo_env demo_table (demo_pdf 100) = Inr p2"
    "page p2 = Suc 0" "cur_y p2 = 200" "calls p2 = [Image demo_figure 10 100 190, Ln 100]"
    by (auto simp: g demo_floats n)
  from pb [of "demo_pdf demo_edge" "[]"] c
  obtain p3 where p3: "render_table demo_env demo_table (demo_pdf demo_edge) = Inr p3"
    "page p3 = Suc 0" "cur_y p3 = 282"
    "calls p3 = [Image demo_figure 10 demo_edge 190, Ln 100]"
    by (auto simp: g demo_floats n)
  have r1: "render_table demo_env demo_table (demo_pdf 200) =
     Inr \<lparr>cur_y = 145, page = 2,
          calls = [AddPage, SetY 25, SetFont ''DejaVu'' ''B'' 16, SetTextColor 102 0 204,
                   Cell 0 10 report_title, Ln 10, Image demo_figure 10 45 190, Ln 100]\<rparr>"
    using p1 eq [of p1] by (simp add: hc numeral_2_eq_2)
  have r2: "render_table demo_env demo_table (demo_pdf 100) =
     Inr \<lparr>cur_y = 200, page = 1, calls = [Image demo_figure 10 100 190, Ln 100]\<rparr>"
    using p2 eq [of p2] by simp
  have r3: "render_table demo_env demo_table (demo_pdf demo_edge) =
     Inr \<lparr>cur_y = 282, page = 1,
          calls = [Image demo_figure 10 demo_edge 190, Ln 100]\<rparr>"
    using p3 eq [of p3] by simp
  from t demo_table_height f [of 200] a b c c' r1 r2 r3 show ?thesis by blast
qed

text \<open>
  Claim C4. \<^verbatim>\<open>clean_table_data\<close> is idempotent; it never turns a grid whose rows have
  cells into one with a row without cells; and on a grid whose rows all have width
  \<open>m\<close> it keeps exactly the columns that are not blank in every row (header included),
  in their order, but returns the grid unchanged when every column is blank.
\<close>

theorem clean_table_data_drops_blank_columns:
  "clean_table_data (clean_table_data grid) = clean_table_data grid \<and>
   ((\<forall>row\<in>set grid. row \<noteq> []) \<longrightarrow> (\<forall>row\<in>set (clean_table_data grid). row \<noteq> [])) \<and>
   (grid \<noteq> [] \<and> (\<forall>row\<in>set grid. length row = m) \<longrightarrow>
      clean_table_data grid =
        (if kept_cols grid m = [] then grid
         else map (\<lambda>row. map (\<lambda>j. row ! j) (kept_cols grid m)) grid))"
proof (intro conjI impI)
  show "clean_table_data (clean_table_data grid) = clean_table_data grid"
    by (rule clean_table_data_idem)
next
  assume "\<forall>row\<in>set grid. row \<noteq> []"
  then show "\<forall>row\<in>set (clean_table_data grid). row \<noteq> []"
    by (rule clean_table_data_no_empty_row)
next
  assume "grid \<noteq> [] \<and> (\<forall>row\<in>set grid. length row = m)"
  then have "grid \<noteq> []" and "\<forall>row\<in>set grid. length row = m" by simp_all
  then show "clean_table_data grid =
        (if kept_cols grid m = [] then grid
         else map (\<lambda>row. map (\<lambda>j. row ! j) (kept_cols grid m)) grid)"
    by (rule clean_table_data_rect)
qed

theorem clean_table_data_drops_blank_columns_witness:
  "kept_cols [[[], ''A'', '' '', ''B''], [[], ''1'', [], ''2'']] 4 = [1, 3] \<and>
   clean_table_data [[[], ''A'', '' '', ''B''], [[], ''1'', [], ''2'']] =
     [[''A'', ''B''], [''1'', ''2'']] \<and>
   clean_table_data [[''A'', ''B''], [''1'', ''2'']] = [[''A'', ''B''], [''1'', ''2'']] \<and>
   kept_cols [[[], '' ''], [[], []]] 2 = [] \<and>
   clean_table_data [[[], '' ''], [[], []]] = [[[], '' ''], [[], []]]"
proof -
  let ?g = "[[[], ''A'', '' '', ''B''], [[], ''1'', [], ''2'']]"
  let ?b = "[[[], '' ''], [[], []]]"
  have k: "kept_cols ?g 4 = [1, 3]"
    by (simp add: grid_eval upt_rec)
  have kb: "kept_cols ?b 2 = []"
    by (simp add: grid_eval upt_rec)
  have c: "clean_table_data ?g = [[''A'', ''B''], [''1'', ''2'']]"
    using clean_table_data_drops_blank_columns [of ?g 4, THEN conjunct2, THEN conjunct2]
    by (simp add: k)
  have i: "clean_table_data [[''A'', ''B''], [''1'', ''2'']] = [[''A'', ''B''], [''1'', ''2'']]"
    using clean_table_data_drops_blank_columns [of ?g 4, THEN conjunct1] by (simp add: c)
  have b: "clean_table_data ?b = ?b"
    using clean_table_data_drops_blank_columns [of ?b 2, THEN conjunct2, THEN conjunct2]
    by (simp add: kb)
  from k c i kb b show ?thesis by simp
qed

text \<open>
  Claim C5. Markup with fewer than three non-blank lines (after splitting on line
  breaks, trimming each line and discarding blank lines) makes \<^verbatim>\<open>parse_markdown_table\<close>
  fail with the table-parse error instead of returning a grid; in particular markup that
  consists of a header and a separator and has no data row fails.
\<close>

theorem parse_rejects_short_tables:
  "(length (nonblank_lines markdown) < 3 \<longrightarrow>
      (\<exists>e. parse_markdown_table markdown = Inl e \<and> MalformedTable e \<and>
         e = ValueError (''Invalid table markdown: Insufficient rows. Markdown: '' @ markdown))) \<and>
   (nonblank_lines markdown = [header_row, separator_row] \<longrightarrow>
      (\<exists>e. parse_markdown_table markdown = Inl e \<and> MalformedTable e))"
proof (intro conjI impI)
  assume "length (nonblank_lines markdown) < 3"
  from parse_insufficient [OF this]
  show "\<exists>e. parse_markdown_table markdown = Inl e \<and> MalformedTable e \<and>
         e = ValueError (''Invalid table markdown: Insufficient rows. Markdown: '' @ markdown)"
    by simp
next
  assume "nonblank_lines markdown = [header_row, separator_row]"
  then have "length (nonblank_lines markdown) < 3" by simp
  from parse_insufficient [OF this]
  show "\<exists>e. parse_markdown_table markdown = Inl e \<and> MalformedTable e" by simp
qed

theorem parse_rejects_short_tables_witness:
  "nonblank_lines (''| A | B |'' @ [nl] @ ''|---|---|'' @ [nl]) = [''| A | B |'', ''|---|---|''] \<and>
   (\<exists>e. parse_markdown_table (''| A | B |'' @ [nl] @ ''|---|---|'' @ [nl]) = Inl e \<and>
        MalformedTable e) \<and>
   length (nonblank_lines ''   '') < 3 \<and>
   (\<exists>e. parse_markdown_table ''   '' = Inl e \<and> MalformedTable e)"
proof -
  have a: "nonblank_lines (''| A | B |'' @ [nl] @ ''|---|---|'' @ [nl]) =
      [''| A | B |'', ''|---|---|'']"
    by (simp add: string_eval)
  have b: "length (nonblank_lines ''   '') < 3"
    by (simp add: string_eval)
  show ?thesis
    using a b
      parse_rejects_short_tables [of "''| A | B |'' @ [nl] @ ''|---|---|'' @ [nl]"
        "''| A | B |''" "''|---|---|''"]
      parse_rejects_short_tables [of "''   ''"]
    by blast
qed

text \<open>
  Claim C6. For markup with at least three non-blank lines, \<^verbatim>\<open>parse_markdown_table\<close>
  fails if and only if some cell of the second non-blank line, split on the bar and
  trimmed, is non-empty and does not consist of one or more dashes; every failure is the
  table-parse error, and empty separator cells are accepted.
\<close>

theorem parse_fails_iff_bad_separator:
  assumes "3 \<le> length (nonblank_lines markdown)"
  shows "((\<exists>e. parse_markdown_table markdown = Inl e) \<longleftrightarrow>
          (\<exists>cell\<in>set (separator_cells markdown). cell \<noteq> [] \<and> \<not> dash_cell cell)) \<and>
         (\<forall>e. parse_markdown_table markdown = Inl e \<longrightarrow> MalformedTable e)"
proof (intro conjI allI impI)
  show "(\<exists>e. parse_markdown_table markdown = Inl e) \<longleftrightarrow>
        (\<exists>cell\<in>set (separator_cells markdown). cell \<noteq> [] \<and> \<not> dash_cell cell)"
  proof (cases "list_all (\<lambda>cell. cell = [] \<or> dash_cell cell) (separator_cells markdown)")
    case True
    with assms have "valid_table markdown" by (simp add: valid_table_def)
    from parse_valid [OF this] True show ?thesis by (auto simp: list_all_iff)
  next
    case False
    from parse_bad_separator [OF assms False] False show ?thesis
      by (auto simp: list_all_iff)
  qed
next
  fix e assume "parse_markdown_table markdown = Inl e"
  then show "MalformedTable e" by (rule parse_Inl_MalformedTable)
qed

theorem parse_fails_iff_bad_separator_witness:
  "3 \<le> length (nonblank_lines (''A|B'' @ [nl] @ ''--|x-'' @ [nl] @ ''1|2'')) \<and>
   (\<exists>e. parse_markdown_table (''A|B'' @ [nl] @ ''--|x-'' @ [nl] @ ''1|2'') = Inl e) \<and>
   3 \<le> length (nonblank_lines (''| A |'' @ [nl] @ ''|---|'' @ [nl] @ ''| 1 |'')) \<and>
   separator_cells (''| A |'' @ [nl] @ ''|---|'' @ [nl] @ ''| 1 |'') = [[], ''---'', []] \<and>
   \<not> (\<exists>e. parse_markdown_table (''| A |'' @ [nl] @ ''|---|'' @ [nl] @ ''| 1 |'') = Inl e)"
proof -
  have a: "3 \<le> length (nonblank_lines (''A|B'' @ [nl] @ ''--|x-'' @ [nl] @ ''1|2''))"
    by (simp add: string_eval)
  have b: "\<exists>cell\<in>set (separator_cells (''A|B'' @ [nl] @ ''--|x-'' @ [nl] @ ''1|2'')).
      cell \<noteq> [] \<and> \<not> dash_cell cell"
    by (simp add: string_eval)
  have c: "3 \<le> length (nonblank_lines (''| A |'' @ [nl] @ ''|---|'' @ [nl] @ ''| 1 |''))"
    by (simp add: string_eval)
  have d: "separator_cells (''| A |'' @ [nl] @ ''|---|'' @ [nl] @ ''| 1 |'') = [[], ''---'', []]"
    by (simp add: string_eval)
  have e: "\<not> (\<exists>cell\<in>set [[], ''---'', []]. cell \<noteq> [] \<and> \<not> dash_cell cell)"
    by (simp add: dash_cell_def)
  show ?thesis
    using a b c d e
      parse_fails_iff_bad_separator [OF a]
      parse_fails_iff_bad_separator [OF c]
    by simp
qed

text \<open>
  Claim C7. When the body of a section of the request contains a table run whose markup
  fails to parse, the failure is handed up through \<^verbatim>\<open>render_table\<close>,
  \<^verbatim>\<open>render_content\<close> and \<^verbatim>\<open>add_section\<close> (each logs and raises it again) to the
  handler, which answers with status 500: the document is never serialised, and the
  object store is never called. The error handed up is the table-parse error whenever
  no rasterized image has width zero.
\<close>

theorem malformed_table_aborts_build:
  assumes "\<exists>(title, content)\<in>set (dict_items body). malformed_body content"
  shows "\<exists>err. generate_pdf e body =
           \<lparr>result = Inl (HTTPException 500 (ErrorGeneratingPDF (Raised err))),
            events = [NewDocument]\<rparr> \<and>
         ((\<forall>fig. fst (image_dimensions e fig) \<noteq> 0) \<longrightarrow> MalformedTable err) \<and>
         post_generate_pdf e environ (Some (API_KEY environ)) body = generate_pdf e body \<and>
         Output \<notin> set (events (generate_pdf e body)) \<and>
         (\<forall>k b. PutObject k b \<notin> set (events (generate_pdf e body))) \<and>
         (\<forall>k. GeneratePresignedUrl k \<notin> set (events (generate_pdf e body)))"
proof -
  obtain err where err: "render_document e body = Inl err"
    using render_document_malformed [OF assms] by blast
  have g: "generate_pdf e body =
      \<lparr>result = Inl (HTTPException 500 (ErrorGeneratingPDF (Raised err))),
       events = [NewDocument]\<rparr>"
    by (simp add: generate_pdf_def err)
  have k: "(\<forall>fig. fst (image_dimensions e fig) \<noteq> 0) \<longrightarrow> MalformedTable err"
    using render_document_error_malformed [OF err] by blast
  have p: "post_generate_pdf e environ (Some (API_KEY environ)) body = generate_pdf e body"
    by (simp add: post_generate_pdf_def get_api_key_def)
  from g k p show ?thesis by simp
qed

theorem malformed_table_aborts_build_witness:
  "malformed_body (executive_summary
      (demo_request (''Intro'' @ [nl] @ ''| A |'' @ [nl] @ ''| 1 |''))) \<and>
   (\<exists>err. MalformedTable err \<and>
      generate_pdf demo_env (demo_request (''Intro'' @ [nl] @ ''| A |'' @ [nl] @ ''| 1 |'')) =
        \<lparr>result = Inl (HTTPException 500 (ErrorGeneratingPDF (Raised err))),
         events = [NewDocument]\<rparr>)"
proof -
  let ?b = "demo_request (''Intro'' @ [nl] @ ''| A |'' @ [nl] @ ''| 1 |'')"
  have m: "malformed_body (executive_summary ?b)"
    using demo_malformed by (simp add: demo_request_def)
  then have h: "\<exists>(title, content)\<in>set (dict_items ?b). malformed_body content"
    by (simp add: dict_items_def)
  have d: "\<forall>fig. fst (image_dimensions demo_env fig) \<noteq> 0"
    by (simp add: demo_env_def)
  from malformed_table_aborts_build [OF h, of demo_env Map.empty] d m show ?thesis
    by blast
qed

text \<open>
  Claim C8. A request whose key header is missing or differs from the configured key
  is rejected with status 401 before anything else happens: no document is constructed
  and the object store is not called, neither to store an object nor to sign a link.
\<close>

theorem unauthorized_request_rejected:
  assumes "api_key \<noteq> Some (API_KEY environ)"
  shows "post_generate_pdf e environ api_key body =
           \<lparr>result = Inl (HTTPException 401 (Detail ''Invalid or missing API Key'')),
            events = []\<rparr> \<and>
         NewDocument \<notin> set (events (post_generate_pdf e environ api_key body)) \<and>
         (\<forall>k b. PutObject k b \<notin> set (events (post_generate_pdf e environ api_key body))) \<and>
         (\<forall>k. GeneratePresignedUrl k \<notin> set (events (post_generate_pdf e environ api_key body)))"
  using assms by (simp add: post_generate_pdf_def get_api_key_def)

theorem unauthorized_request_rejected_witness:
  "Some ''guess'' \<noteq> Some (API_KEY [''API_KEY'' \<mapsto> ''s3cret'']) \<and>
   post_generate_pdf demo_env [''API_KEY'' \<mapsto> ''s3cret''] (Some ''guess'') (demo_request ''Hello'') =
     \<lparr>result = Inl (HTTPException 401 (Detail ''Invalid or missing API Key'')), events = []\<rparr> \<and>
   None \<noteq> Some (API_KEY [''API_KEY'' \<mapsto> ''s3cret'']) \<and>
   post_generate_pdf demo_env [''API_KEY'' \<mapsto> ''s3cret''] None (demo_request ''Hello'') =
     \<lparr>result = Inl (HTTPException 401 (Detail ''Invalid or missing API Key'')), events = []\<rparr>"
proof -
  have a: "Some ''guess'' \<noteq> Some (API_KEY [''API_KEY'' \<mapsto> ''s3cret''])"
    by (simp add: API_KEY_def)
  have b: "None \<noteq> Some (API_KEY [''API_KEY'' \<mapsto> ''s3cret''])"
    by simp
  from a b
    unauthorized_request_rejected [OF a, of demo_env "demo_request ''Hello''"]
    unauthorized_request_rejected [OF b, of demo_env "demo_request ''Hello''"]
  show ?thesis by simp
qed

text \<open>
  Claim C9. A grid that \<^verbatim>\<open>parse_markdown_table\<close> returns has at least two rows and at
  least one column, \<^verbatim>\<open>clean_table_data\<close> keeps both, and so the rasterizer never returns
  early on an empty grid for a grid that comes through \<^verbatim>\<open>render_table\<close>.
\<close>

theorem parsed_grid_never_empty:
  assumes "parse_markdown_table markdown = Inr grid"
  shows "2 \<le> length grid \<and> (\<forall>row\<in>set grid. 1 \<le> length row) \<and>
         2 \<le> length (clean_table_data grid) \<and>
         (\<forall>row\<in>set (clean_table_data grid). 1 \<le> length row) \<and>
         create_dynamic_table_image (clean_table_data grid) \<noteq> None \<and>
         (\<forall>e p. render_table e markdown p \<noteq> Inl UnidentifiedImageError)"
  using assms by (rule parsed_grid_nonempty)

theorem parsed_grid_never_empty_witness:
  "parse_markdown_table demo_table = Inr [[''A'', ''B''], [''1'', ''2'']] \<and>
   2 \<le> length (clean_table_data [[''A'', ''B''], [''1'', ''2'']]) \<and>
   create_dynamic_table_image (clean_table_data [[''A'', ''B''], [''1'', ''2'']]) \<noteq> None \<and>
   render_table demo_env demo_table (demo_pdf 100) \<noteq> Inl UnidentifiedImageError"
  using demo_table_parse parsed_grid_never_empty [OF demo_table_parse] by blast

text \<open>
  Claim C10. When the environment variable \<^verbatim>\<open>API_KEY\<close> is not set, the configured key
  is \<^verbatim>\<open>default_key\<close>, a request that presents \<^verbatim>\<open>default_key\<close> is accepted, and a request
  is rejected if and only if its header differs from \<^verbatim>\<open>default_key\<close>. In general a
  request is rejected if and only if its header differs from the configured key.
\<close>

theorem default_api_key:
  "(environ ''API_KEY'' = None \<longrightarrow>
      API_KEY environ = ''default_key'' \<and>
      get_api_key (API_KEY environ) (Some ''default_key'') = Inr (Some ''default_key'') \<and>
      post_generate_pdf e environ (Some ''default_key'') body = generate_pdf e body \<and>
      ((\<exists>err. get_api_key (API_KEY environ) api_key = Inl err) \<longleftrightarrow>
         api_key \<noteq> Some ''default_key'')) \<and>
   (environ ''API_KEY'' = Some v \<longrightarrow> API_KEY environ = v) \<and>
   ((\<exists>err. get_api_key (API_KEY environ) api_key = Inl err) \<longleftrightarrow>
      api_key \<noteq> Some (API_KEY environ)) \<and>
   (events (post_generate_pdf e environ api_key body) = [] \<longleftrightarrow>
      api_key \<noteq> Some (API_KEY environ))"
  using generate_pdf_events [of e body]
  by (auto simp: API_KEY_def get_api_key_def post_generate_pdf_def)

theorem default_api_key_witness:
  "(Map.empty :: string \<rightharpoonup> string) ''API_KEY'' = None \<and>
   API_KEY Map.empty = ''default_key'' \<and>
   get_api_key (API_KEY Map.empty) (Some ''default_key'') = Inr (Some ''default_key'') \<and>
   (\<exists>err. get_api_key (API_KEY Map.empty) (Some ''Default_key'') = Inl err) \<and>
   [''API_KEY'' \<mapsto> ''s3cret''] ''API_KEY'' = Some ''s3cret'' \<and>
   API_KEY [''API_KEY'' \<mapsto> ''s3cret''] = ''s3cret'' \<and>
   (\<exists>err. get_api_key (API_KEY [''API_KEY'' \<mapsto> ''s3cret'']) (Some ''default_key'') = Inl err)"
proof -
  have a: "(Map.empty :: string \<rightharpoonup> string) ''API_KEY'' = None" by simp
  have b: "[''API_KEY'' \<mapsto> ''s3cret''] ''API_KEY'' = Some ''s3cret''" by simp
  have c: "Some ''Default_key'' \<noteq> Some ''default_key''" by simp
  have d: "Some ''default_key'' \<noteq> Some ''s3cret''" by simp
  from a c default_api_key [of Map.empty demo_env "demo_request ''Hello''" "Some ''Default_key''"]
  have 1: "API_KEY Map.empty = ''default_key'' \<and>
      get_api_key (API_KEY Map.empty) (Some ''default_key'') = Inr (Some ''default_key'') \<and>
      (\<exists>err. get_api_key (API_KEY Map.empty) (Some ''Default_key'') = Inl err)"
    by blast
  from b default_api_key [of "[''API_KEY'' \<mapsto> ''s3cret'']" demo_env "demo_request ''Hello''"
      "Some ''default_key''" "''s3cret''"]
  have 2: "API_KEY [''API_KEY'' \<mapsto> ''s3cret''] = ''s3cret''"
    by blast
  from d 2 have d': "Some ''default_key'' \<noteq> Some (API_KEY [''API_KEY'' \<mapsto> ''s3cret''])"
    by simp
  from d' default_api_key [of "[''API_KEY'' \<mapsto> ''s3cret'']" demo_env "demo_request ''Hello''"
      "Some ''default_key''" "''s3cret''"]
  have 3: "\<exists>err. get_api_key (API_KEY [''API_KEY'' \<mapsto> ''s3cret'']) (Some ''default_key'') = Inl err"
    by blast
  from a b 1 2 3 show ?thesis by blast
qed

end
